theory Spec2Isabelle
  imports Main "HOL-Library.Word"
begin

unbundle bit_operations_syntax

section \<open>The sensors proxy server (sensors-server.cpp)\<close>

text \<open>
  A shallow embedding of the proxy server: the per-client and per-module structures, the
  command handlers, the client registry and the event dispatcher. The two threads share
  the module under one mutex; every command handler and every dispatch pass is modelled
  as one atomic transition of a \<open>machine\<close>, which holds the module, the heap of client
  objects and what the environment observes (device calls, packets sent, descriptors).
  Log output is not modelled. The return value of the device's \<open>activate\<close> and
  \<open>setDelay\<close> is only logged by the server, so the device is a trace of calls.
\<close>

subsection \<open>Constants\<close>

definition SMODULE_CLIENT_MAX :: nat where
  "SMODULE_CLIENT_MAX = 8"

definition SENSORS_CHARS_MAX :: nat where
  "SENSORS_CHARS_MAX = 64"

definition LLONG_MAX :: int where
  "LLONG_MAX = 9223372036854775807"

definition ECONNRESET :: int where
  "ECONNRESET = 104"

definition EPOLLIN :: "32 word" where
  "EPOLLIN = 1"

definition SENSORS_PROXY_CMD_ACTIVATE :: int where
  "SENSORS_PROXY_CMD_ACTIVATE = 0"

definition SENSORS_PROXY_CMD_SET_DELAY :: int where
  "SENSORS_PROXY_CMD_SET_DELAY = 1"

subsection \<open>Data\<close>

text \<open>
  \<open>struct sensors_proxy_cmd\<close>: the union is read through the member that the command
  kind selects, so both members are fields here.
\<close>

record sensors_proxy_cmd =
  cmd_cmd :: int
  cmd_handle :: int
  cmd_activate_enabled :: int
  cmd_set_delay_ns :: int

text \<open>The parts of the HAL's \<open>sensor_t\<close> and \<open>sensors_event_t\<close> the server reads.\<close>

record sensor_t =
  sensor_name :: string
  sensor_vendor :: string
  sensor_handle :: int

record sensors_event_t =
  sensor :: int
  timestamp :: int

text \<open>
  \<open>struct smodule_client\<close>. The pointer \<open>smod\<close> always refers to the one module of the
  machine. The two arrays are owned by the client alone and are lists here; the
  \<open>char\<close> flags only ever hold 0 or 1.
\<close>

record smodule_client =
  client_sock_fd :: int
  client_sensors_enabled :: int
  client_sensor_enabled :: "bool list"
  client_sensor_delay_ns :: "int list"

text \<open>
  \<open>struct smodule\<close>: \<open>clients\<close> is the array of \<open>SMODULE_CLIENT_MAX\<close> pointers
  (\<open>None\<close> is NULL), a pointer is the address of a client object in the heap.
\<close>

record smodule =
  sensor_list :: "sensor_t list"
  sensor_count :: int
  handle_last :: int
  sensors_enabled :: "int list"
  sensor_delay_ns :: "int list"
  clients :: "nat option list"
  client_count :: int

datatype hal_call = Activate int int | SetDelay int int

datatype packet =
    PCount int
  | PStrings "(string \<times> string) list"
  | PSensors "sensor_t list"
  | PEvent sensors_event_t

datatype fault = OutOfBounds | AssertFailed | BadPointer

text \<open>
  The machine. \<open>heap\<close> holds the live client objects, \<open>next_addr\<close> and \<open>next_fd\<close> are
  what \<open>calloc\<close> and \<open>accept\<close> return next. \<open>epoll\<close> is the set of client descriptors
  the event loop waits on, with their \<open>data.ptr\<close>. \<open>hal\<close> is the sequence of device
  calls made so far. A \<open>send\<close> on descriptor \<open>fd\<close> that is the \<open>k\<close>-th call on it fails
  with errno \<open>e\<close> when \<open>send_errno fd k = Some e\<close>; \<open>outbox fd\<close> are the packets
  delivered. \<open>asserts_on\<close> tells whether \<open>ALOG_ASSERT\<close> is compiled in.
\<close>

record machine =
  smod :: smodule
  heap :: "nat \<Rightarrow> smodule_client option"
  next_addr :: nat
  next_fd :: int
  errno :: int
  epoll :: "(int \<times> nat) list"
  closed_fds :: "int list"
  hal :: "hal_call list"
  send_errno :: "int \<Rightarrow> nat \<Rightarrow> int option"
  send_seq :: "int \<Rightarrow> nat"
  outbox :: "int \<Rightarrow> packet list"
  asserts_on :: bool

definition in_range :: "int \<Rightarrow> 'a list \<Rightarrow> bool" where
  "in_range i xs \<longleftrightarrow> 0 \<le> i \<and> i < int (length xs)"

subsection \<open>Helpers: send, recv_all, epoll\<close>

text \<open>\<open>send\<close> returns a negative value and sets errno on failure; only the sign is read.\<close>

definition send :: "int \<Rightarrow> packet \<Rightarrow> machine \<Rightarrow> int \<times> machine" where
  "send fd p m =
     (case send_errno m fd (send_seq m fd) of
        None \<Rightarrow> (0, m\<lparr>send_seq := (send_seq m)(fd := Suc (send_seq m fd)),
                       outbox := (outbox m)(fd := outbox m fd @ [p])\<rparr>)
      | Some e \<Rightarrow> (-1, m\<lparr>send_seq := (send_seq m)(fd := Suc (send_seq m fd)),
                         errno := e\<rparr>))"

text \<open>
  What \<open>recv\<close> gives for one command record: the whole record, an orderly shutdown of the
  peer (\<open>n = 0\<close>), or an error with its errno (\<open>n < 0\<close>). \<open>recv_all\<close> turns the shutdown
  into errno \<open>ECONNRESET\<close> and returns -1 for both failures.
\<close>

datatype recv_ret = Received sensors_proxy_cmd | PeerShutdown | RecvError int

definition recv_all :: "recv_ret \<Rightarrow> machine \<Rightarrow> (int \<times> sensors_proxy_cmd option) \<times> machine" where
  "recv_all r m =
     (case r of
        Received c \<Rightarrow> ((0, Some c), m)
      | PeerShutdown \<Rightarrow> ((-1, None), m\<lparr>errno := ECONNRESET\<rparr>)
      | RecvError e \<Rightarrow> ((-1, None), m\<lparr>errno := e\<rparr>))"

definition epoll_add_fd :: "int \<Rightarrow> nat \<Rightarrow> machine \<Rightarrow> machine" where
  "epoll_add_fd fd data m = m\<lparr>epoll := epoll m @ [(fd, data)]\<rparr>"

definition epoll_del_fd :: "int \<Rightarrow> machine \<Rightarrow> machine" where
  "epoll_del_fd fd m = m\<lparr>epoll := filter (\<lambda>e. fst e \<noteq> fd) (epoll m)\<rparr>"

subsection \<open>Client functions\<close>

definition smodule_client_send_list :: "smodule_client \<Rightarrow> machine \<Rightarrow> int \<times> machine" where
  "smodule_client_send_list client m =
     (let (ret, m1) = send (client_sock_fd client) (PCount (sensor_count (smod m))) m in
      if ret < 0 then (-1, m1)
      else
        let sl = take (nat (sensor_count (smod m1))) (sensor_list (smod m1));
            slist = map (\<lambda>s. (take SENSORS_CHARS_MAX (sensor_name s),
                               take SENSORS_CHARS_MAX (sensor_vendor s))) sl;
            (ret, m2) = send (client_sock_fd client) (PStrings slist) m1
        in if ret < 0 then (-1, m2)
           else
             let (ret, m3) = send (client_sock_fd client) (PSensors sl) m2
             in if ret < 0 then (-1, m3) else (0, m3))"

text \<open>The loop of \<open>smodule_client_update_delay\<close> over \<open>clients[0 .. client_count - 1]\<close>.\<close>

fun find_delay_min ::
  "(nat \<Rightarrow> smodule_client option) \<Rightarrow> int \<Rightarrow> nat option list \<Rightarrow> int \<Rightarrow> fault + int" where
  "find_delay_min hp h [] delay_min = Inr delay_min"
| "find_delay_min hp h (slot # rest) delay_min =
     (case slot of
        None \<Rightarrow> Inl BadPointer
      | Some a \<Rightarrow>
          (case hp a of
             None \<Rightarrow> Inl BadPointer
           | Some c \<Rightarrow>
               if \<not> in_range h (client_sensor_delay_ns c) \<or> \<not> in_range h (client_sensor_enabled c)
               then Inl OutOfBounds
               else
                 let delay = client_sensor_delay_ns c ! nat h
                 in find_delay_min hp h rest
                      (if client_sensor_enabled c ! nat h \<and> delay > 0 \<and> delay < delay_min
                       then delay else delay_min)))"

definition smodule_client_update_delay :: "nat \<Rightarrow> int \<Rightarrow> machine \<Rightarrow> fault + machine" where
  "smodule_client_update_delay client h m =
     (case heap m client of
        None \<Rightarrow> Inl BadPointer
      | Some c \<Rightarrow>
          if asserts_on m \<and> \<not> (0 \<le> h \<and> h \<le> handle_last (smod m)) then Inl AssertFailed
          else
            (case find_delay_min (heap m) h
                    (take (nat (client_count (smod m))) (clients (smod m))) LLONG_MAX of
               Inl f \<Rightarrow> Inl f
             | Inr delay_min \<Rightarrow>
                 if delay_min = LLONG_MAX then Inr m
                 else if \<not> in_range h (sensor_delay_ns (smod m)) then Inl OutOfBounds
                 else if sensor_delay_ns (smod m) ! nat h = 0
                         \<or> delay_min \<noteq> sensor_delay_ns (smod m) ! nat h
                 then Inr (m\<lparr>smod := (smod m)\<lparr>sensor_delay_ns :=
                                       (sensor_delay_ns (smod m))[nat h := delay_min]\<rparr>,
                             hal := hal m @ [SetDelay h delay_min]\<rparr>)
                 else Inr m))"

text \<open>
  Lines 254 to 266 of \<open>smodule_client_update_activate\<close>: the device calls made once the
  bookkeeping is done.
\<close>

definition activate_device :: "int \<Rightarrow> int \<Rightarrow> bool \<Rightarrow> machine \<Rightarrow> fault + machine" where
  "activate_device h activate_enabled do_activate m =
     (if do_activate then
        let m1 = m\<lparr>hal := hal m @ [Activate h activate_enabled]\<rparr>
        in if activate_enabled \<noteq> 0 then
             (if \<not> in_range h (sensor_delay_ns (smod m1)) then Inl OutOfBounds
              else if sensor_delay_ns (smod m1) ! nat h \<noteq> 0
              then Inr (m1\<lparr>hal := hal m1 @ [SetDelay h (sensor_delay_ns (smod m1) ! nat h)]\<rparr>)
              else Inr m1)
           else Inr m1
      else Inr m)"

definition smodule_client_update_activate ::
  "nat \<Rightarrow> int \<Rightarrow> int \<Rightarrow> machine \<Rightarrow> fault + machine" where
  "smodule_client_update_activate client h activate_enabled m =
     (case heap m client of
        None \<Rightarrow> Inl BadPointer
      | Some c \<Rightarrow>
          if asserts_on m \<and> \<not> (0 \<le> h \<and> h \<le> handle_last (smod m)) then Inl AssertFailed
          else if \<not> in_range h (sensors_enabled (smod m))
                  \<or> \<not> in_range h (client_sensor_enabled c)
          then Inl OutOfBounds
          else
            let enabled = client_sensor_enabled c ! nat h;
                enabled_count = sensors_enabled (smod m) ! nat h
            in if activate_enabled \<noteq> 0 then
                 (if enabled then Inr m
                  else activate_device h activate_enabled (enabled_count = 0)
                         (m\<lparr>heap := (heap m)(client \<mapsto>
                               c\<lparr>client_sensors_enabled := client_sensors_enabled c + 1,
                                 client_sensor_enabled :=
                                   (client_sensor_enabled c)[nat h := True]\<rparr>),
                            smod := (smod m)\<lparr>sensors_enabled :=
                               (sensors_enabled (smod m))[nat h := enabled_count + 1]\<rparr>\<rparr>))
               else
                 (if \<not> enabled then Inr m
                  else activate_device h activate_enabled (enabled_count - 1 = 0)
                         (m\<lparr>heap := (heap m)(client \<mapsto>
                               c\<lparr>client_sensors_enabled := client_sensors_enabled c - 1,
                                 client_sensor_enabled :=
                                   (client_sensor_enabled c)[nat h := False]\<rparr>),
                            smod := (smod m)\<lparr>sensors_enabled :=
                               (sensors_enabled (smod m))[nat h := enabled_count - 1]\<rparr>\<rparr>)))"

text \<open>The loop of \<open>smodule_client_free\<close> over the handles \<open>0 .. handle_last\<close>.\<close>

fun disable_sensors :: "nat \<Rightarrow> int list \<Rightarrow> machine \<Rightarrow> fault + machine" where
  "disable_sensors client [] m = Inr m"
| "disable_sensors client (i # rest) m =
     (case heap m client of
        None \<Rightarrow> Inl BadPointer
      | Some c \<Rightarrow>
          if \<not> in_range i (client_sensor_enabled c) then Inl OutOfBounds
          else if client_sensor_enabled c ! nat i then
            (case smodule_client_update_activate client i 0 m of
               Inl f \<Rightarrow> Inl f
             | Inr m' \<Rightarrow> disable_sensors client rest m')
          else disable_sensors client rest m)"

subsection \<open>The registry\<close>

fun add_client_loop :: "nat \<Rightarrow> nat list \<Rightarrow> smodule \<Rightarrow> int \<times> smodule" where
  "add_client_loop client [] sm = (-1, sm)"
| "add_client_loop client (i # rest) sm =
     (if clients sm ! i = None
      then (0, sm\<lparr>clients := (clients sm)[i := Some client], client_count := int i + 1\<rparr>)
      else add_client_loop client rest sm)"

text \<open>
  \<open>smodule_add_client\<close> computes \<open>err\<close> in its loop, logs it, and ends with
  \<open>return -1\<close>.
\<close>

definition smodule_add_client :: "nat \<Rightarrow> smodule \<Rightarrow> int \<times> smodule" where
  "smodule_add_client client sm =
     (let (err, sm') = add_client_loop client [0..<SMODULE_CLIENT_MAX] sm in (-1, sm'))"

fun remove_client_loop :: "nat \<Rightarrow> nat list \<Rightarrow> smodule \<Rightarrow> int \<times> smodule" where
  "remove_client_loop client [] sm = (-1, sm)"
| "remove_client_loop client (i # rest) sm =
     (if clients sm ! i = Some client then
        let cc = nat (client_count sm - 1);
            cs = foldl (\<lambda>cs j. cs[j := cs ! (j + 1)]) (clients sm) [i..<cc]
        in (0, sm\<lparr>clients := cs[cc := None], client_count := client_count sm - 1\<rparr>)
      else remove_client_loop client rest sm)"

definition smodule_remove_client :: "nat \<Rightarrow> smodule \<Rightarrow> int \<times> smodule" where
  "smodule_remove_client client sm =
     remove_client_loop client [0..<nat (client_count sm)] sm"

subsection \<open>Connections\<close>

text \<open>
  What the environment answers when a connection is taken: \<open>accept\<close> fails with an
  errno, or one of the three \<open>calloc\<close> calls fails, or everything is allocated.
\<close>

datatype connect_env = AcceptFails int | NoMemClient | NoMemEnabled | NoMemDelay | AllocOk

definition close_fd :: "int \<Rightarrow> machine \<Rightarrow> machine" where
  "close_fd fd m = m\<lparr>closed_fds := closed_fds m @ [fd]\<rparr>"

fun smodule_client_new :: "connect_env \<Rightarrow> machine \<Rightarrow> nat option \<times> machine" where
  "smodule_client_new (AcceptFails e) m = (None, m\<lparr>errno := e\<rparr>)"
| "smodule_client_new NoMemClient m =
     (None, close_fd (next_fd m) (m\<lparr>next_fd := next_fd m + 1\<rparr>))"
| "smodule_client_new NoMemEnabled m =
     (None, close_fd (next_fd m) (m\<lparr>next_fd := next_fd m + 1\<rparr>))"
| "smodule_client_new NoMemDelay m =
     (None, close_fd (next_fd m) (m\<lparr>next_fd := next_fd m + 1\<rparr>))"
| "smodule_client_new AllocOk m =
     (let fd = next_fd m;
          a = next_addr m;
          n = nat (handle_last (smod m) + 1);
          client = \<lparr>client_sock_fd = fd, client_sensors_enabled = 0,
                    client_sensor_enabled = replicate n False,
                    client_sensor_delay_ns = replicate n 0\<rparr>;
          m1 = m\<lparr>next_fd := fd + 1, next_addr := Suc a, heap := (heap m)(a \<mapsto> client)\<rparr>;
          m2 = epoll_add_fd fd a m1;
          (err, m3) = smodule_client_send_list client m2
      in (Some a, m3))"

definition smodule_client_free :: "nat \<Rightarrow> machine \<Rightarrow> fault + machine" where
  "smodule_client_free client m =
     (case disable_sensors client [0..handle_last (smod m)] m of
        Inl f \<Rightarrow> Inl f
      | Inr m1 \<Rightarrow>
          (case heap m1 client of
             None \<Rightarrow> Inl BadPointer
           | Some c \<Rightarrow>
               let m2 = epoll_del_fd (client_sock_fd c) m1;
                   (err, sm) = smodule_remove_client client (smod m2);
                   m3 = m2\<lparr>smod := sm\<rparr>
               in Inr (m3\<lparr>heap := (heap m3)(client := None)\<rparr>)))"

definition smodule_client_handle_event ::
  "nat \<Rightarrow> 32 word \<Rightarrow> recv_ret \<Rightarrow> machine \<Rightarrow> fault + machine" where
  "smodule_client_handle_event client events r m =
     (case heap m client of
        None \<Rightarrow> Inl BadPointer
      | Some c \<Rightarrow>
          if events AND EPOLLIN \<noteq> 0 then
            (case recv_all r m of
               ((err, rc), m1) \<Rightarrow>
                 if err \<noteq> 0 then
                   (if errno m1 = ECONNRESET then smodule_client_free client m1 else Inr m1)
                 else
                   (case rc of
                      None \<Rightarrow> Inr m1
                    | Some c' \<Rightarrow>
                        if cmd_cmd c' = SENSORS_PROXY_CMD_ACTIVATE then
                          (case smodule_client_update_activate client (cmd_handle c')
                                  (cmd_activate_enabled c') m1 of
                             Inl f \<Rightarrow> Inl f
                           | Inr m2 \<Rightarrow> smodule_client_update_delay client (cmd_handle c') m2)
                        else if cmd_cmd c' = SENSORS_PROXY_CMD_SET_DELAY then
                          (if \<not> in_range (cmd_handle c') (client_sensor_delay_ns c)
                           then Inl OutOfBounds
                           else smodule_client_update_delay client (cmd_handle c')
                                  (m1\<lparr>heap := (heap m1)(client \<mapsto>
                                        c\<lparr>client_sensor_delay_ns :=
                                            (client_sensor_delay_ns c)
                                              [nat (cmd_handle c') := cmd_set_delay_ns c']\<rparr>)\<rparr>))
                        else Inr m1))
          else if errno m = ECONNRESET then smodule_client_free client m
          else Inr m)"

definition smodule_handle_event :: "32 word \<Rightarrow> connect_env \<Rightarrow> machine \<Rightarrow> machine" where
  "smodule_handle_event events env m =
     (if events AND EPOLLIN \<noteq> 0 then
        (case smodule_client_new env m of
           (None, m1) \<Rightarrow> m1
         | (Some client, m1) \<Rightarrow> m1\<lparr>smod := snd (smodule_add_client client (smod m1))\<rparr>)
      else m)"

subsection \<open>The event dispatcher\<close>

text \<open>The inner loop of \<open>smodule_poll_thread\<close> over the events, for one client.\<close>

fun send_events :: "smodule_client \<Rightarrow> sensors_event_t list \<Rightarrow> machine \<Rightarrow> fault + machine" where
  "send_events c [] m = Inr m"
| "send_events c (e # es) m =
     (if \<not> in_range (sensor e) (client_sensor_enabled c) then Inl OutOfBounds
      else if client_sensor_enabled c ! nat (sensor e) then
        (let (ret, m') = send (client_sock_fd c) (PEvent e) m
         in if ret < 0 then Inr m' else send_events c es m')
      else send_events c es m)"

text \<open>The outer loop over \<open>clients[0 .. client_count - 1]\<close>.\<close>

fun dispatch_clients ::
  "nat option list \<Rightarrow> sensors_event_t list \<Rightarrow> machine \<Rightarrow> fault + machine" where
  "dispatch_clients [] es m = Inr m"
| "dispatch_clients (slot # rest) es m =
     (case slot of
        None \<Rightarrow> Inl BadPointer
      | Some a \<Rightarrow>
          (case heap m a of
             None \<Rightarrow> Inl BadPointer
           | Some c \<Rightarrow>
               if client_sensors_enabled c \<le> 0 then dispatch_clients rest es m
               else
                 (case send_events c es m of
                    Inl f \<Rightarrow> Inl f
                  | Inr m' \<Rightarrow> dispatch_clients rest es m')))"

text \<open>
  One turn of the loop of \<open>smodule_poll_thread\<close>: the device's \<open>poll\<close> returned \<open>n\<close>
  and filled the buffer with \<open>evs\<close>.
\<close>

definition smodule_poll_thread :: "int \<Rightarrow> sensors_event_t list \<Rightarrow> machine \<Rightarrow> fault + machine" where
  "smodule_poll_thread n evs m =
     (if n \<le> 0 then Inr m
      else dispatch_clients (take (nat (client_count (smod m))) (clients (smod m)))
             (take (nat n) evs) m)"

subsection \<open>Runs of the server\<close>

text \<open>
  What happens to the server: the event loop gets an event on the listening socket or on
  a client's socket (with what \<open>accept\<close>, \<open>calloc\<close> and \<open>recv\<close> answer), or the device's
  \<open>poll\<close> returns to the dispatcher.
\<close>

datatype action =
    Listener "32 word" connect_env
  | Client nat "32 word" recv_ret
  | Poll int "sensors_event_t list"

fun step :: "action \<Rightarrow> machine \<Rightarrow> fault + machine" where
  "step (Listener events env) m = Inr (smodule_handle_event events env m)"
| "step (Client client events r) m = smodule_client_handle_event client events r m"
| "step (Poll n evs) m = smodule_poll_thread n evs m"

fun run :: "action list \<Rightarrow> machine \<Rightarrow> fault + machine" where
  "run [] m = Inr m"
| "run (a # as) m = (case step a m of Inl f \<Rightarrow> Inl f | Inr m' \<Rightarrow> run as m')"

text \<open>
  \<open>smodule_new\<close>: the state after a start-up in which every system call succeeded, for
  the sensor list the HAL returned; an empty list makes start-up fail. \<open>peers\<close> is
  the behaviour of the peers' sockets, \<open>fd0\<close> the first free descriptor.
\<close>

definition smodule_new ::
  "sensor_t list \<Rightarrow> bool \<Rightarrow> (int \<Rightarrow> nat \<Rightarrow> int option) \<Rightarrow> int \<Rightarrow> machine option" where
  "smodule_new sl asserts peers fd0 =
     (if int (length sl) \<le> 0 then None
      else
        let hl = fold (\<lambda>s hl. if sensor_handle s > hl then sensor_handle s else hl) sl 0
        in Some \<lparr>smod = \<lparr>sensor_list = sl, sensor_count = int (length sl), handle_last = hl,
                    sensors_enabled = replicate (nat (hl + 1)) 0,
                    sensor_delay_ns = replicate (nat (hl + 1)) 0,
                    clients = replicate SMODULE_CLIENT_MAX None, client_count = 0\<rparr>,
            heap = (\<lambda>a. None), next_addr = 0, next_fd = fd0, errno = 0, epoll = [],
            closed_fds = [], hal = [], send_errno = peers, send_seq = (\<lambda>fd. 0),
            outbox = (\<lambda>fd. []), asserts_on = asserts\<rparr>)"

section \<open>Well-formed machines and examples\<close>

text \<open>
  The shape that \<open>smodule_new\<close> and \<open>smodule_client_new\<close> establish: every per-handle
  array has \<open>handle_last + 1\<close> fields, the registry has \<open>SMODULE_CLIENT_MAX\<close> slots, and
  the first \<open>client_count\<close> slots point to live clients.
\<close>

definition client_ok :: "int \<Rightarrow> smodule_client \<Rightarrow> bool" where
  "client_ok hl c \<longleftrightarrow>
     length (client_sensor_enabled c) = nat (hl + 1) \<and>
     length (client_sensor_delay_ns c) = nat (hl + 1)"

definition smod_ok :: "smodule \<Rightarrow> bool" where
  "smod_ok sm \<longleftrightarrow>
     0 \<le> handle_last sm \<and>
     length (sensors_enabled sm) = nat (handle_last sm + 1) \<and>
     length (sensor_delay_ns sm) = nat (handle_last sm + 1) \<and>
     length (clients sm) = SMODULE_CLIENT_MAX \<and>
     0 \<le> client_count sm \<and> client_count sm \<le> int SMODULE_CLIENT_MAX"

definition slot_ok :: "(nat \<Rightarrow> smodule_client option) \<Rightarrow> int \<Rightarrow> nat option \<Rightarrow> bool" where
  "slot_ok hp hl slot =
     (case slot of
        None \<Rightarrow> False
      | Some a \<Rightarrow> (case hp a of None \<Rightarrow> False | Some c \<Rightarrow> client_ok hl c))"

definition registry_ok :: "machine \<Rightarrow> bool" where
  "registry_ok m \<longleftrightarrow>
     list_all (slot_ok (heap m) (handle_last (smod m)))
       (take (nat (client_count (smod m))) (clients (smod m)))"

text \<open>
  A machine with two sensors and one registered client that has sensor 0 enabled with a
  delay of 50 ns, and has had sensor 1 enabled with a delay of 30 ns.
\<close>

definition demo_sensors :: "sensor_t list" where
  "demo_sensors =
     [\<lparr>sensor_name = ''accel'', sensor_vendor = ''acme'', sensor_handle = 0\<rparr>,
      \<lparr>sensor_name = ''gyro'', sensor_vendor = ''acme'', sensor_handle = 1\<rparr>]"

definition demo_handshake :: "packet list" where
  "demo_handshake =
     [PCount 2, PStrings [(''accel'', ''acme''), (''gyro'', ''acme'')], PSensors demo_sensors]"

definition demo_client :: smodule_client where
  "demo_client =
     \<lparr>client_sock_fd = 5, client_sensors_enabled = 1,
      client_sensor_enabled = [True, False], client_sensor_delay_ns = [50, 30]\<rparr>"

definition demo_machine :: machine where
  "demo_machine =
     \<lparr>smod = \<lparr>sensor_list = demo_sensors, sensor_count = 2, handle_last = 1,
               sensors_enabled = [1, 0], sensor_delay_ns = [50, 30],
               clients = [Some 0, None, None, None, None, None, None, None],
               client_count = 1\<rparr>,
      heap = (\<lambda>a. None)(0 \<mapsto> demo_client), next_addr = 1, next_fd = 6, errno = 0,
      epoll = [(5, 0)], closed_fds = [],
      hal = [Activate 0 1, SetDelay 0 50, Activate 1 1, SetDelay 1 30, Activate 1 0],
      send_errno = (\<lambda>fd k. None), send_seq = (\<lambda>fd. 0)(5 := 3),
      outbox = (\<lambda>fd. [])(5 := demo_handshake), asserts_on = False\<rparr>"

section \<open>Reference counting of activations\<close>

text \<open>
  A test harness for the activation step: \<open>activate_all\<close> applies a list of requests
  (session, \<open>activate_enabled\<close>) for one handle and returns, for each request, the device
  calls that request made. \<open>demand\<close> is the net demand in the words of the
  specification: the number of sessions that want the handle after each request.
\<close>

fun is_activate :: "hal_call \<Rightarrow> bool" where
  "is_activate (Activate h v) = True"
| "is_activate (SetDelay h d) = False"

fun activate_all ::
  "int \<Rightarrow> (nat \<times> int) list \<Rightarrow> machine \<Rightarrow> fault + (hal_call list list \<times> machine)" where
  "activate_all h [] m = Inr ([], m)"
| "activate_all h ((client, v) # rest) m =
     (case smodule_client_update_activate client h v m of
        Inl f \<Rightarrow> Inl f
      | Inr m' \<Rightarrow>
          (case activate_all h rest m' of
             Inl f \<Rightarrow> Inl f
           | Inr (calls, m'') \<Rightarrow> Inr (drop (length (hal m)) (hal m') # calls, m'')))"

definition request :: "nat set \<Rightarrow> nat \<times> int \<Rightarrow> nat set" where
  "request E r = (if snd r \<noteq> 0 then insert (fst r) E else E - {fst r})"

fun demand :: "nat set \<Rightarrow> (nat \<times> int) list \<Rightarrow> nat list" where
  "demand E [] = []"
| "demand E (r # rest) = card (request E r) # demand (request E r) rest"

definition crosses_zero_only_at_ends :: "nat list \<Rightarrow> bool" where
  "crosses_zero_only_at_ends ds \<longleftrightarrow>
     butlast ds \<noteq> [] \<and> list_all (\<lambda>d. 0 < d) (butlast ds) \<and> last ds = 0"

definition session_disabled :: "machine \<Rightarrow> int \<Rightarrow> nat \<Rightarrow> bool" where
  "session_disabled m h a =
     (case heap m a of
        None \<Rightarrow> False
      | Some c \<Rightarrow> client_ok (handle_last (smod m)) c \<and> \<not> client_sensor_enabled c ! nat h)"

text \<open>
  The device call expected of a request: one \<open>activate\<close> when the demand leaves or
  reaches 0, none otherwise.
\<close>

definition edge_call :: "int \<Rightarrow> int \<Rightarrow> nat \<Rightarrow> nat \<Rightarrow> hal_call list" where
  "edge_call h v before after = (if (before = 0) \<noteq> (after = 0) then [Activate h v] else [])"

fun edge_calls :: "int \<Rightarrow> nat set \<Rightarrow> (nat \<times> int) list \<Rightarrow> hal_call list list" where
  "edge_calls h E [] = []"
| "edge_calls h E (r # rest) =
     edge_call h (snd r) (card E) (card (request E r)) # edge_calls h (request E r) rest"

text \<open>
  The abstraction relation: the count of handle \<open>h\<close> is the number of sessions in \<open>E\<close>,
  and a session of \<open>A\<close> has the handle enabled exactly when it is in \<open>E\<close>.
\<close>

definition counts_sessions :: "int \<Rightarrow> nat set \<Rightarrow> nat set \<Rightarrow> machine \<Rightarrow> bool" where
  "counts_sessions h A E m \<longleftrightarrow>
     smod_ok (smod m) \<and> 0 \<le> h \<and> h \<le> handle_last (smod m) \<and>
     finite E \<and> E \<subseteq> A \<and> sensors_enabled (smod m) ! nat h = int (card E) \<and>
     (\<forall>a\<in>A. \<exists>c. heap m a = Some c \<and> client_ok (handle_last (smod m)) c
                 \<and> (client_sensor_enabled c ! nat h \<longleftrightarrow> a \<in> E))"

text \<open>Three registered sessions with nothing enabled, and a sequence of requests.\<close>

definition demo_idle :: "int \<Rightarrow> smodule_client" where
  "demo_idle fd =
     \<lparr>client_sock_fd = fd, client_sensors_enabled = 0,
      client_sensor_enabled = [False, False], client_sensor_delay_ns = [0, 0]\<rparr>"

definition demo_sessions :: machine where
  "demo_sessions =
     \<lparr>smod = \<lparr>sensor_list = demo_sensors, sensor_count = 2, handle_last = 1,
               sensors_enabled = [0, 0], sensor_delay_ns = [0, 0],
               clients = [Some 0, Some 1, Some 2, None, None, None, None, None],
               client_count = 3\<rparr>,
      heap = (\<lambda>a. None)(0 \<mapsto> demo_idle 5, 1 \<mapsto> demo_idle 6, 2 \<mapsto> demo_idle 7),
      next_addr = 3, next_fd = 8, errno = 0,
      epoll = [(5, 0), (6, 1), (7, 2)], closed_fds = [], hal = [],
      send_errno = (\<lambda>fd k. None), send_seq = (\<lambda>fd. 0)(5 := 3, 6 := 3, 7 := 3),
      outbox = (\<lambda>fd. [])(5 := demo_handshake, 6 := demo_handshake, 7 := demo_handshake),
      asserts_on = False\<rparr>"

definition demo_requests :: "(nat \<times> int) list" where
  "demo_requests = [(0, 1), (1, 1), (0, 1), (0, 0), (2, 1), (1, 0), (2, 0)]"

section \<open>Delay aggregation\<close>

text \<open>
  The registered sessions, and in the words of the specification the delays that take
  part in the aggregation for a handle: the requests of the registered sessions that have
  the handle enabled, as far as they are positive and below the value \<open>LLONG_MAX\<close> with
  which the search starts.
\<close>

definition clients_of :: "(nat \<Rightarrow> smodule_client option) \<Rightarrow> nat option list \<Rightarrow> smodule_client list" where
  "clients_of hp slots =
     List.map_filter (\<lambda>slot. case slot of None \<Rightarrow> None | Some a \<Rightarrow> hp a) slots"

definition registered :: "machine \<Rightarrow> smodule_client list" where
  "registered m =
     clients_of (heap m) (take (nat (client_count (smod m))) (clients (smod m)))"

definition requested_delays :: "int \<Rightarrow> smodule_client list \<Rightarrow> int list" where
  "requested_delays h cs =
     map (\<lambda>c. client_sensor_delay_ns c ! nat h)
       (filter (\<lambda>c. client_sensor_enabled c ! nat h) cs)"

definition delay_requests :: "machine \<Rightarrow> int \<Rightarrow> int list" where
  "delay_requests m h =
     filter (\<lambda>d. 0 < d \<and> d < LLONG_MAX) (requested_delays h (registered m))"

text \<open>
  Three registered sessions that have sensor 0 enabled and ask for 50 ms, 20 ms and
  100 ms, while the device was last given 50 ms: the machine in the middle of the
  \<open>ACTIVATE\<close> command by which the second session, the last to do so, enables the
  sensor.
\<close>

definition demo_subscriber :: "int \<Rightarrow> int \<Rightarrow> smodule_client" where
  "demo_subscriber fd d =
     \<lparr>client_sock_fd = fd, client_sensors_enabled = 1,
      client_sensor_enabled = [True, False], client_sensor_delay_ns = [d, 0]\<rparr>"

definition demo_three :: machine where
  "demo_three =
     \<lparr>smod = \<lparr>sensor_list = demo_sensors, sensor_count = 2, handle_last = 1,
               sensors_enabled = [3, 0], sensor_delay_ns = [50000000, 0],
               clients = [Some 0, Some 1, Some 2, None, None, None, None, None],
               client_count = 3\<rparr>,
      heap = (\<lambda>a. None)(0 \<mapsto> demo_subscriber 5 50000000,
                           1 \<mapsto> demo_subscriber 6 20000000,
                           2 \<mapsto> demo_subscriber 7 100000000),
      next_addr = 3, next_fd = 8, errno = 0,
      epoll = [(5, 0), (6, 1), (7, 2)], closed_fds = [],
      hal = [Activate 0 1, SetDelay 0 50000000],
      send_errno = (\<lambda>fd k. None), send_seq = (\<lambda>fd. 0)(5 := 3, 6 := 3, 7 := 3),
      outbox = (\<lambda>fd. [])(5 := demo_handshake, 6 := demo_handshake, 7 := demo_handshake),
      asserts_on = False\<rparr>"

section \<open>Teardown of a session\<close>

text \<open>
  What the loop of \<open>smodule_client_free\<close> over the handles \<open>hs\<close> does to a machine in
  which the client is \<open>c\<close>: the flags of the handles in \<open>hs\<close> are cleared, each count
  of a handle the client had enabled is one less, and \<open>activate(h, 0)\<close> was called for
  the handles whose count was 1. Nothing else has changed.
\<close>

definition disabled_by ::
  "nat \<Rightarrow> smodule_client \<Rightarrow> int list \<Rightarrow> machine \<Rightarrow> machine \<Rightarrow> bool" where
  "disabled_by client c hs m m' \<longleftrightarrow>
     (\<exists>c' se'.
        m' = m\<lparr>heap := (heap m)(client \<mapsto> c'),
               smod := (smod m)\<lparr>sensors_enabled := se'\<rparr>,
               hal := hal m @ map (\<lambda>h. Activate h 0)
                 (filter (\<lambda>h. client_sensor_enabled c ! nat h
                               \<and> sensors_enabled (smod m) ! nat h = 1) hs)\<rparr>
        \<and> client_sock_fd c' = client_sock_fd c
        \<and> client_sensor_delay_ns c' = client_sensor_delay_ns c
        \<and> length (client_sensor_enabled c') = length (client_sensor_enabled c)
        \<and> (\<forall>h. 0 \<le> h \<and> h \<le> handle_last (smod m) \<longrightarrow>
              client_sensor_enabled c' ! nat h
                = (client_sensor_enabled c ! nat h \<and> h \<notin> set hs))
        \<and> length se' = length (sensors_enabled (smod m))
        \<and> (\<forall>h. 0 \<le> h \<and> h \<le> handle_last (smod m) \<longrightarrow>
              se' ! nat h
                = sensors_enabled (smod m) ! nat h
                    - (if h \<in> set hs \<and> client_sensor_enabled c ! nat h then 1 else 0)))"

text \<open>
  The registry as \<open>smodule_add_client\<close> and \<open>smodule_remove_client\<close> keep it: no client
  is registered twice and the slots from \<open>client_count\<close> on are NULL.
\<close>

definition registry_tidy :: "smodule \<Rightarrow> bool" where
  "registry_tidy sm \<longleftrightarrow>
     distinct (take (nat (client_count sm)) (clients sm)) \<and>
     list_all (\<lambda>slot. slot = None) (drop (nat (client_count sm)) (clients sm))"

text \<open>
  The state after the teardown of client \<open>c\<close> at address \<open>client\<close>: the object is
  freed, no slot of the registry points to it while every other registered client is
  still registered, its descriptor is no longer waited on, the counts of the handles it
  had enabled are one less, with one \<open>activate(h, 0)\<close> call for each handle whose count
  was 1, in the order of the handles. The stored delays are not touched and no other
  device call is made.
\<close>

definition torn_down :: "nat \<Rightarrow> smodule_client \<Rightarrow> machine \<Rightarrow> machine \<Rightarrow> bool" where
  "torn_down client c m m' \<longleftrightarrow>
     heap m' = (heap m)(client := None)
     \<and> Some client \<notin> set (clients (smod m'))
     \<and> (\<forall>a. a \<noteq> client
            \<and> Some a \<in> set (take (nat (client_count (smod m))) (clients (smod m)))
          \<longrightarrow> Some a \<in> set (take (nat (client_count (smod m'))) (clients (smod m'))))
     \<and> epoll m' = filter (\<lambda>e. fst e \<noteq> client_sock_fd c) (epoll m)
     \<and> (\<forall>h. 0 \<le> h \<and> h \<le> handle_last (smod m) \<longrightarrow>
           sensors_enabled (smod m') ! nat h
             = sensors_enabled (smod m) ! nat h
                 - (if client_sensor_enabled c ! nat h then 1 else 0))
     \<and> sensor_delay_ns (smod m') = sensor_delay_ns (smod m)
     \<and> hal m' = hal m @ map (\<lambda>h. Activate h 0)
           (filter (\<lambda>h. client_sensor_enabled c ! nat h
                         \<and> sensors_enabled (smod m) ! nat h = 1)
              [0..handle_last (smod m)])"

section \<open>A run from start-up\<close>

text \<open>
  The machine after start-up with the two example sensors, and commands as actions of
  the event loop.
\<close>

definition demo_boot :: machine where
  "demo_boot =
     \<lparr>smod = \<lparr>sensor_list = demo_sensors, sensor_count = 2, handle_last = 1,
               sensors_enabled = [0, 0], sensor_delay_ns = [0, 0],
               clients = [None, None, None, None, None, None, None, None],
               client_count = 0\<rparr>,
      heap = (\<lambda>a. None), next_addr = 0, next_fd = 5, errno = 0, epoll = [],
      closed_fds = [], hal = [], send_errno = (\<lambda>fd k. None), send_seq = (\<lambda>fd. 0),
      outbox = (\<lambda>fd. []), asserts_on = False\<rparr>"

definition cmd_activate :: "nat \<Rightarrow> int \<Rightarrow> int \<Rightarrow> action" where
  "cmd_activate client h v =
     Client client EPOLLIN
       (Received \<lparr>cmd_cmd = SENSORS_PROXY_CMD_ACTIVATE, cmd_handle = h,
                  cmd_activate_enabled = v, cmd_set_delay_ns = 0\<rparr>)"

definition cmd_set_delay :: "nat \<Rightarrow> int \<Rightarrow> int \<Rightarrow> action" where
  "cmd_set_delay client h d =
     Client client EPOLLIN
       (Received \<lparr>cmd_cmd = SENSORS_PROXY_CMD_SET_DELAY, cmd_handle = h,
                  cmd_activate_enabled = 0, cmd_set_delay_ns = d\<rparr>)"

text \<open>The histories of the example machines.\<close>

definition demo_history :: "action list" where
  "demo_history =
     [Listener EPOLLIN AllocOk, cmd_activate 0 0 1, cmd_set_delay 0 0 50,
      cmd_set_delay 0 1 30, cmd_activate 0 1 1, cmd_activate 0 1 0]"

definition demo_connects :: "action list" where
  "demo_connects =
     [Listener EPOLLIN AllocOk, Listener EPOLLIN AllocOk, Listener EPOLLIN AllocOk]"

definition demo_three_history :: "action list" where
  "demo_three_history =
     demo_connects @
     [cmd_activate 0 0 1, cmd_set_delay 0 0 50000000, cmd_set_delay 1 0 20000000,
      cmd_set_delay 2 0 100000000, cmd_activate 2 0 1]"

text \<open>
  Three clients connect, enable sensor 0 and ask for 50 ms, 20 ms and 100 ms.
\<close>

definition demo_subscribe :: "action list" where
  "demo_subscribe =
     [Listener EPOLLIN AllocOk, Listener EPOLLIN AllocOk, Listener EPOLLIN AllocOk,
      cmd_activate 0 0 1, cmd_set_delay 0 0 50000000,
      cmd_activate 1 0 1, cmd_set_delay 1 0 20000000,
      cmd_activate 2 0 1, cmd_set_delay 2 0 100000000]"

text \<open>
  An event of sensor 0, and the start-up machine with a peer on descriptor 5 whose
  \<open>k\<close>-th \<open>send\<close> fails with \<open>EPIPE\<close>.
\<close>

definition demo_event :: sensors_event_t where
  "demo_event = \<lparr>sensor = 0, timestamp = 1000\<rparr>"

definition demo_boot_failing :: "nat \<Rightarrow> machine" where
  "demo_boot_failing k =
     demo_boot\<lparr>send_errno := (\<lambda>fd n. if fd = 5 \<and> n = k then Some 32 else None)\<rparr>"

section \<open>Isolation of sessions\<close>

text \<open>
  \<open>event_for h\<close> holds of the packets that are events of sensor \<open>h\<close>; \<open>enables s h\<close>
  holds of the actions in which the event loop is given an \<open>ACTIVATE\<close> command of the
  client at address \<open>s\<close> that enables handle \<open>h\<close>.
\<close>

definition event_for :: "int \<Rightarrow> packet \<Rightarrow> bool" where
  "event_for h p = (case p of PEvent e \<Rightarrow> sensor e = h | _ \<Rightarrow> False)"

fun enables :: "nat \<Rightarrow> int \<Rightarrow> action \<Rightarrow> bool" where
  "enables s h (Client a events (Received k)) =
     (a = s \<and> cmd_cmd k = SENSORS_PROXY_CMD_ACTIVATE \<and> cmd_handle k = h
      \<and> cmd_activate_enabled k \<noteq> 0)"
| "enables s h _ = False"

text \<open>
  The session at address \<open>s\<close> with descriptor \<open>fd\<close> is isolated from handle \<open>h\<close>: the
  descriptor has been given out by \<open>accept\<close>, no event of \<open>h\<close> has been sent on it, and
  a live client with this descriptor can only be \<open>s\<close>, with \<open>h\<close> not enabled.
\<close>

definition isolated :: "int \<Rightarrow> int \<Rightarrow> nat \<Rightarrow> machine \<Rightarrow> bool" where
  "isolated fd h s m \<longleftrightarrow>
     fd < next_fd m
     \<and> \<not> list_ex (event_for h) (outbox m fd)
     \<and> (\<forall>a c. heap m a = Some c \<and> client_sock_fd c = fd \<longrightarrow>
           a = s \<and> \<not> (in_range h (client_sensor_enabled c)
                        \<and> client_sensor_enabled c ! nat h))"

text \<open>Traffic in which client 1 enables sensor 1 only, while the others enable sensor 0.\<close>

definition demo_event1 :: sensors_event_t where
  "demo_event1 = \<lparr>sensor = 1, timestamp = 1001\<rparr>"

definition demo_traffic :: "action list" where
  "demo_traffic =
     [cmd_activate 0 0 1, cmd_activate 1 1 1, Poll 2 [demo_event, demo_event1],
      cmd_activate 2 0 1, cmd_set_delay 1 0 5000, Poll 1 [demo_event]]"

text \<open>
  Descriptors are given out in increasing order and never closed by a teardown: every
  live client has a descriptor below the next one \<open>accept\<close> will return, and nothing
  has been sent on a descriptor not yet given out.
\<close>

definition fds_fresh :: "machine \<Rightarrow> bool" where
  "fds_fresh m \<longleftrightarrow>
     (\<forall>a c. heap m a = Some c \<longrightarrow> client_sock_fd c < next_fd m)
     \<and> (\<forall>fd. next_fd m \<le> fd \<longrightarrow> outbox m fd = [])"

text \<open>The start-up machine, a first client, then the client that is observed.\<close>

definition demo_session_life :: "action list" where
  "demo_session_life =
     [Listener EPOLLIN AllocOk, cmd_activate 0 0 1, cmd_activate 1 1 1,
      Poll 2 [demo_event, demo_event1], Client 0 EPOLLIN PeerShutdown,
      cmd_set_delay 1 0 5000, Poll 1 [demo_event]]"

section \<open>Properties\<close>

subsection \<open>The activation step\<close>

lemma in_range_ok: "length xs = nat (hl + 1) \<Longrightarrow> in_range h xs \<longleftrightarrow> 0 \<le> h \<and> h \<le> hl"
  by (auto simp: in_range_def)

lemma update_activate_enable:
  assumes "heap m client = Some c" "client_ok (handle_last (smod m)) c" "smod_ok (smod m)"
    and "0 \<le> h" "h \<le> handle_last (smod m)"
    and "activate_enabled \<noteq> 0" "\<not> client_sensor_enabled c ! nat h"
  shows "smodule_client_update_activate client h activate_enabled m =
     Inr (m\<lparr>heap := (heap m)(client \<mapsto>
               c\<lparr>client_sensors_enabled := client_sensors_enabled c + 1,
                 client_sensor_enabled := (client_sensor_enabled c)[nat h := True]\<rparr>),
            smod := (smod m)\<lparr>sensors_enabled :=
               (sensors_enabled (smod m))[nat h := sensors_enabled (smod m) ! nat h + 1]\<rparr>,
            hal := hal m @
              (if sensors_enabled (smod m) ! nat h = 0
               then Activate h activate_enabled #
                    (if sensor_delay_ns (smod m) ! nat h \<noteq> 0
                     then [SetDelay h (sensor_delay_ns (smod m) ! nat h)] else [])
               else [])\<rparr>)"
  using assms
  by (simp add: smodule_client_update_activate_def activate_device_def client_ok_def
      smod_ok_def in_range_ok Let_def)

lemma update_activate_disable:
  assumes "heap m client = Some c" "client_ok (handle_last (smod m)) c" "smod_ok (smod m)"
    and "0 \<le> h" "h \<le> handle_last (smod m)"
    and "client_sensor_enabled c ! nat h"
  shows "smodule_client_update_activate client h 0 m =
     Inr (m\<lparr>heap := (heap m)(client \<mapsto>
               c\<lparr>client_sensors_enabled := client_sensors_enabled c - 1,
                 client_sensor_enabled := (client_sensor_enabled c)[nat h := False]\<rparr>),
            smod := (smod m)\<lparr>sensors_enabled :=
               (sensors_enabled (smod m))[nat h := sensors_enabled (smod m) ! nat h - 1]\<rparr>,
            hal := hal m @
              (if sensors_enabled (smod m) ! nat h = 1 then [Activate h 0] else [])\<rparr>)"
  using assms
  by (simp add: smodule_client_update_activate_def activate_device_def client_ok_def
      smod_ok_def in_range_ok Let_def)

lemma update_activate_nop:
  assumes "heap m client = Some c" "client_ok (handle_last (smod m)) c" "smod_ok (smod m)"
    and "0 \<le> h" "h \<le> handle_last (smod m)"
    and "(activate_enabled \<noteq> 0) = client_sensor_enabled c ! nat h"
  shows "smodule_client_update_activate client h activate_enabled m = Inr m"
  using assms
  by (simp add: smodule_client_update_activate_def client_ok_def smod_ok_def in_range_ok
      Let_def)

lemma demo_machine_ok:
  "heap demo_machine 0 = Some demo_client"
  "client_ok (handle_last (smod demo_machine)) demo_client"
  "smod_ok (smod demo_machine)"
  "registry_ok demo_machine"
  by (simp_all add: demo_machine_def demo_client_def client_ok_def smod_ok_def
      registry_ok_def slot_ok_def SMODULE_CLIENT_MAX_def)

lemmas run_defs =
  cmd_activate_def cmd_set_delay_def
  smodule_handle_event_def smodule_client_handle_event_def smodule_client_send_list_def
  smodule_client_update_activate_def smodule_client_update_delay_def activate_device_def
  smodule_add_client_def send_def recv_all_def epoll_add_fd_def in_range_def
  EPOLLIN_def SENSORS_PROXY_CMD_ACTIVATE_def SENSORS_PROXY_CMD_SET_DELAY_def
  SENSORS_CHARS_MAX_def SMODULE_CLIENT_MAX_def LLONG_MAX_def Let_def upt_rec
  numeral_2_eq_2 numeral_3_eq_3

text \<open>The example machines are states of the server, reached from start-up.\<close>

lemma demo_machine_reachable: "run demo_history demo_boot = Inr demo_machine"
  by (simp add: demo_history_def demo_boot_def demo_machine_def demo_client_def
      demo_handshake_def demo_sensors_def run_defs)

lemma demo_sessions_reachable: "run demo_connects demo_boot = Inr demo_sessions"
  by (simp add: demo_connects_def demo_boot_def demo_sessions_def demo_idle_def
      demo_handshake_def demo_sensors_def run_defs)

text \<open>
  The activation step alone: in \<open>smodule_client_update_activate\<close>, a request to enable
  a handle that the session already has enabled, and a request to disable a handle that
  the session has disabled, returns the machine as it was.
\<close>

lemma update_activate_redundant_is_nop:
  assumes "heap m client = Some c"
    and "client_ok (handle_last (smod m)) c"
    and "smod_ok (smod m)"
    and "0 \<le> h" and "h \<le> handle_last (smod m)"
    and "(activate_enabled \<noteq> 0) = client_sensor_enabled c ! nat h"
  shows "smodule_client_update_activate client h activate_enabled m = Inr m"
  using assms by (rule update_activate_nop)

lemma update_activate_redundant_example:
  "smodule_client_update_activate 0 0 1 demo_machine = Inr demo_machine
   \<and> smodule_client_update_activate 0 1 0 demo_machine = Inr demo_machine"
proof -
  have e: "(1 \<noteq> (0::int)) = client_sensor_enabled demo_client ! nat 0"
    by (simp add: demo_client_def)
  have d: "(0 \<noteq> (0::int)) = client_sensor_enabled demo_client ! nat 1"
    by (simp add: demo_client_def)
  have h1: "(1::int) \<le> handle_last (smod demo_machine)"
    by (simp add: demo_machine_def)
  have h0: "(0::int) \<le> handle_last (smod demo_machine)"
    by (simp add: demo_machine_def)
  show ?thesis
    using update_activate_redundant_is_nop [OF demo_machine_ok(1-3) _ h0 e]
      update_activate_redundant_is_nop [OF demo_machine_ok(1-3) _ h1 d]
    by simp
qed

text \<open>
  The handler of an \<open>ACTIVATE\<close> command runs the delay aggregation after the activation
  step. For a redundant command the activation step changes nothing, so the handler does
  what \<open>smodule_client_update_delay\<close> does on the same machine: it calls \<open>setDelay\<close>
  exactly when the stored delay of the handle differs from the minimum of the requests.
\<close>

lemma redundant_activate_command:
  assumes "heap m client = Some c"
    and "client_ok (handle_last (smod m)) c"
    and "smod_ok (smod m)"
    and "0 \<le> cmd_handle k" and "cmd_handle k \<le> handle_last (smod m)"
    and "cmd_cmd k = SENSORS_PROXY_CMD_ACTIVATE"
    and "(cmd_activate_enabled k \<noteq> 0) = client_sensor_enabled c ! nat (cmd_handle k)"
  shows "smodule_client_handle_event client EPOLLIN (Received k) m =
           smodule_client_update_delay client (cmd_handle k) m"
  using assms(1,6) update_activate_nop [OF assms(1-5,7)]
  by (simp add: smodule_client_handle_event_def recv_all_def EPOLLIN_def)

text \<open>
  Claim C9. When a request enables a handle for a session that did not have it and the
  count of the handle was 0, the device calls made are \<open>activate(handle, enabled)\<close>,
  followed at once by \<open>setDelay(handle, d)\<close> for the stored delay \<open>d\<close> of the handle when
  \<open>d\<close> is not 0, and by nothing when it is 0; the stored delay is not changed.
\<close>

theorem activation_edge_reissues_delay:
  assumes "heap m client = Some c"
    and "client_ok (handle_last (smod m)) c"
    and "smod_ok (smod m)"
    and "0 \<le> h" and "h \<le> handle_last (smod m)"
    and "activate_enabled \<noteq> 0"
    and "\<not> client_sensor_enabled c ! nat h"
    and "sensors_enabled (smod m) ! nat h = 0"
  shows "\<exists>m'. smodule_client_update_activate client h activate_enabled m = Inr m'
          \<and> sensors_enabled (smod m') ! nat h = 1
          \<and> sensor_delay_ns (smod m') = sensor_delay_ns (smod m)
          \<and> hal m' = hal m @ Activate h activate_enabled #
               (if sensor_delay_ns (smod m) ! nat h \<noteq> 0
                then [SetDelay h (sensor_delay_ns (smod m) ! nat h)] else [])"
proof -
  have "nat h < length (sensors_enabled (smod m))"
    using assms(3-5) by (simp add: smod_ok_def)
  then show ?thesis
    using assms by (simp add: update_activate_enable)
qed

theorem activation_edge_reissues_delay_witness:
  "\<exists>m'. smodule_client_update_activate 0 1 1 demo_machine = Inr m'
     \<and> hal m' = hal demo_machine @ [Activate 1 1, SetDelay 1 30]"
proof -
  have d: "\<not> client_sensor_enabled demo_client ! nat 1"
    by (simp add: demo_client_def)
  have h1: "(1::int) \<le> handle_last (smod demo_machine)"
    by (simp add: demo_machine_def)
  have z: "sensors_enabled (smod demo_machine) ! nat 1 = 0"
    by (simp add: demo_machine_def)
  have v: "(1::int) \<noteq> 0" by simp
  have s: "sensor_delay_ns (smod demo_machine) = [50, 30]"
    by (simp add: demo_machine_def)
  show ?thesis
    using activation_edge_reissues_delay [OF demo_machine_ok(1-3) _ h1 v d z]
    by (auto simp: s)
qed

subsection \<open>Reference counting\<close>

lemma update_activate_counts:
  assumes inv: "counts_sessions h A E m" and a: "a \<in> A"
  shows "\<exists>m'. smodule_client_update_activate a h v m = Inr m'
           \<and> counts_sessions h A (request E (a, v)) m'
           \<and> filter is_activate (drop (length (hal m)) (hal m'))
               = edge_call h v (card E) (card (request E (a, v)))"
proof -
  from inv a obtain c where c: "heap m a = Some c" "client_ok (handle_last (smod m)) c"
    and en: "client_sensor_enabled c ! nat h \<longleftrightarrow> a \<in> E"
    by (auto simp: counts_sessions_def)
  from inv have ok: "smod_ok (smod m)" and h: "0 \<le> h" "h \<le> handle_last (smod m)"
    and fin: "finite E" and sub: "E \<subseteq> A"
    and cnt: "sensors_enabled (smod m) ! nat h = int (card E)"
    and others: "\<forall>b\<in>A. \<exists>c. heap m b = Some c \<and> client_ok (handle_last (smod m)) c
                 \<and> (client_sensor_enabled c ! nat h \<longleftrightarrow> b \<in> E)"
    by (auto simp: counts_sessions_def)
  have len: "nat h < length (sensors_enabled (smod m))"
    "nat h < length (client_sensor_enabled c)"
    using ok h c(2) by (auto simp: smod_ok_def client_ok_def)
  consider (nop) "(v \<noteq> 0) = (a \<in> E)" | (enable) "v \<noteq> 0" "a \<notin> E" | (disable) "v = 0" "a \<in> E"
    by blast
  then show ?thesis
  proof cases
    case nop
    then have "request E (a, v) = E"
      by (auto simp: request_def)
    moreover have "smodule_client_update_activate a h v m = Inr m"
      using update_activate_nop [OF c ok h] nop en by simp
    ultimately show ?thesis
      using inv by (simp add: edge_call_def)
  next
    case enable
    define c' where "c' = c\<lparr>client_sensors_enabled := client_sensors_enabled c + 1,
                 client_sensor_enabled := (client_sensor_enabled c)[nat h := True]\<rparr>"
    define m' where "m' = m\<lparr>heap := (heap m)(a \<mapsto> c'),
            smod := (smod m)\<lparr>sensors_enabled :=
               (sensors_enabled (smod m))[nat h := sensors_enabled (smod m) ! nat h + 1]\<rparr>,
            hal := hal m @
              (if sensors_enabled (smod m) ! nat h = 0
               then Activate h v #
                    (if sensor_delay_ns (smod m) ! nat h \<noteq> 0
                     then [SetDelay h (sensor_delay_ns (smod m) ! nat h)] else [])
               else [])\<rparr>"
    have res: "smodule_client_update_activate a h v m = Inr m'"
      using update_activate_enable [OF c ok h enable(1)] en enable(2)
      by (simp add: m'_def c'_def)
    have r: "request E (a, v) = insert a E"
      using enable by (simp add: request_def)
    have card: "card (insert a E) = Suc (card E)"
      using fin enable by simp
    have 1: "smod_ok (smod m')" "handle_last (smod m') = handle_last (smod m)"
      using ok by (simp_all add: m'_def smod_ok_def)
    have 2: "sensors_enabled (smod m') ! nat h = int (card (insert a E))"
      using len cnt by (simp add: m'_def card)
    have 3: "\<exists>c. heap m' b = Some c \<and> client_ok (handle_last (smod m')) c
                 \<and> (client_sensor_enabled c ! nat h \<longleftrightarrow> b \<in> insert a E)" if "b \<in> A" for b
    proof (cases "b = a")
      case True
      then show ?thesis
        using c(2) len by (simp add: m'_def c'_def client_ok_def)
    next
      case False
      then show ?thesis
        using others that by (simp add: m'_def)
    qed
    have 4: "filter is_activate (drop (length (hal m)) (hal m'))
               = edge_call h v (card E) (card (insert a E))"
      using cnt by (simp add: m'_def edge_call_def card)
    have "counts_sessions h A (insert a E) m'"
      unfolding counts_sessions_def using 1 2 3 h fin sub a by simp
    then show ?thesis
      using res 4 unfolding r by simp
  next
    case disable
    define c' where "c' = c\<lparr>client_sensors_enabled := client_sensors_enabled c - 1,
                 client_sensor_enabled := (client_sensor_enabled c)[nat h := False]\<rparr>"
    define m' where "m' = m\<lparr>heap := (heap m)(a \<mapsto> c'),
            smod := (smod m)\<lparr>sensors_enabled :=
               (sensors_enabled (smod m))[nat h := sensors_enabled (smod m) ! nat h - 1]\<rparr>,
            hal := hal m @
              (if sensors_enabled (smod m) ! nat h = 1 then [Activate h 0] else [])\<rparr>"
    have res: "smodule_client_update_activate a h v m = Inr m'"
      using update_activate_disable [OF c ok h] en disable
      by (simp add: m'_def c'_def)
    have r: "request E (a, v) = E - {a}"
      using disable by (simp add: request_def)
    have cpos: "0 < card E"
      using fin disable by (auto simp: card_gt_0_iff)
    have card: "int (card (E - {a})) = int (card E) - 1"
      using fin disable cpos by (simp add: of_nat_diff)
    have cz: "card (E - {a}) = 0 \<longleftrightarrow> card E = 1"
      using fin disable cpos by (simp add: card_Diff_singleton) arith
    have 1: "smod_ok (smod m')" "handle_last (smod m') = handle_last (smod m)"
      using ok by (simp_all add: m'_def smod_ok_def)
    have 2: "sensors_enabled (smod m') ! nat h = int (card (E - {a}))"
      using len cnt by (simp add: m'_def card)
    have 3: "\<exists>c. heap m' b = Some c \<and> client_ok (handle_last (smod m')) c
                 \<and> (client_sensor_enabled c ! nat h \<longleftrightarrow> b \<in> E - {a})" if "b \<in> A" for b
    proof (cases "b = a")
      case True
      then show ?thesis
        using c(2) len by (simp add: m'_def c'_def client_ok_def)
    next
      case False
      then show ?thesis
        using others that by (simp add: m'_def)
    qed
    have 4: "filter is_activate (drop (length (hal m)) (hal m'))
               = edge_call h v (card E) (card (E - {a}))"
      using cnt cpos disable(1) by (simp add: m'_def edge_call_def cz)
    have "counts_sessions h A (E - {a}) m'"
      unfolding counts_sessions_def using 1 2 3 h fin sub a by auto
    then show ?thesis
      using res 4 unfolding r by simp
  qed
qed

lemma activate_all_counts:
  assumes "counts_sessions h A E m" and "fst ` set reqs \<subseteq> A"
  shows "\<exists>calls m'. activate_all h reqs m = Inr (calls, m')
           \<and> counts_sessions h A (fold (\<lambda>r E. request E r) reqs E) m'
           \<and> map (filter is_activate) calls = edge_calls h E reqs"
  using assms
proof (induction reqs arbitrary: E m)
  case Nil
  then show ?case by simp
next
  case (Cons r reqs)
  obtain a v where r: "r = (a, v)" by (cases r)
  from Cons.prems r have a: "a \<in> A" by simp
  from update_activate_counts [OF Cons.prems(1) a, of v]
  obtain m1 where m1: "smodule_client_update_activate a h v m = Inr m1"
    "counts_sessions h A (request E (a, v)) m1"
    "filter is_activate (drop (length (hal m)) (hal m1))
       = edge_call h v (card E) (card (request E (a, v)))"
    by blast
  from Cons.IH [OF m1(2)] Cons.prems(2)
  obtain calls m' where rest: "activate_all h reqs m1 = Inr (calls, m')"
    "counts_sessions h A (fold (\<lambda>r E. request E r) reqs (request E (a, v))) m'"
    "map (filter is_activate) calls = edge_calls h (request E (a, v)) reqs"
    by auto
  show ?case
    using m1 rest by (simp add: r)
qed

lemma edge_calls_tail:
  assumes "finite E" "0 < card E" "reqs \<noteq> []"
    and "list_all (\<lambda>d. 0 < d) (butlast (demand E reqs))" "last (demand E reqs) = 0"
  shows "edge_calls h E reqs = replicate (length reqs - 1) [] @ [[Activate h 0]]"
  using assms
proof (induction reqs arbitrary: E)
  case Nil
  then show ?case by simp
next
  case (Cons r reqs)
  have fin: "finite (request E r)"
    using Cons.prems(1) by (simp add: request_def)
  show ?case
  proof (cases "reqs = []")
    case True
    with Cons.prems have z: "card (request E r) = 0" by simp
    have "snd r = 0"
    proof (rule ccontr)
      assume "snd r \<noteq> 0"
      then have "request E r = insert (fst r) E" by (simp add: request_def)
      with z Cons.prems(1) show False by simp
    qed
    then show ?thesis
      using True z Cons.prems(2) by (simp add: edge_call_def)
  next
    case False
    then have ne: "demand (request E r) reqs \<noteq> []"
      by (cases reqs) simp_all
    with Cons.prems have pos: "0 < card (request E r)"
      and rest: "list_all (\<lambda>d. 0 < d) (butlast (demand (request E r) reqs))"
        "last (demand (request E r) reqs) = 0"
      by simp_all
    have "edge_calls h (request E r) reqs = replicate (length reqs - 1) [] @ [[Activate h 0]]"
      by (rule Cons.IH [OF fin pos False rest])
    moreover have "Suc (length reqs - 1) = length reqs"
      using False by (cases reqs) simp_all
    ultimately show ?thesis
      using pos Cons.prems(2) by (simp add: edge_call_def flip: replicate_Suc)
  qed
qed

lemma edge_calls_burst:
  assumes "crosses_zero_only_at_ends (demand {} reqs)"
  shows "edge_calls h {} reqs =
           [Activate h (snd (hd reqs))] # replicate (length reqs - 2) [] @ [[Activate h 0]]
         \<and> snd (hd reqs) \<noteq> 0"
proof (cases reqs)
  case Nil
  with assms show ?thesis by (simp add: crosses_zero_only_at_ends_def)
next
  case (Cons r rest)
  have ne: "rest \<noteq> []"
    using assms Cons by (auto simp: crosses_zero_only_at_ends_def)
  then have dne: "demand (request {} r) rest \<noteq> []" by (cases rest) simp_all
  from assms Cons dne have pos: "0 < card (request {} r)"
    and tl: "list_all (\<lambda>d. 0 < d) (butlast (demand (request {} r) rest))"
      "last (demand (request {} r) rest) = 0"
    by (simp_all add: crosses_zero_only_at_ends_def)
  have v: "snd r \<noteq> 0"
    using pos by (auto simp: request_def split: if_splits)
  have fin: "finite (request {} r)" by (simp add: request_def)
  have "edge_calls h (request {} r) rest = replicate (length rest - 1) [] @ [[Activate h 0]]"
    by (rule edge_calls_tail [OF fin pos ne tl])
  then show ?thesis
    using Cons pos v by (simp add: edge_call_def)
qed


lemma last_demand:
  "reqs \<noteq> [] \<Longrightarrow> last (demand E reqs) = card (fold (\<lambda>r E. request E r) reqs E)"
proof (induction reqs arbitrary: E)
  case Nil
  then show ?case by simp
next
  case (Cons r reqs)
  then show ?case by (cases reqs) simp_all
qed

text \<open>
  Claim C1. Take any handle and any sequence of enable and disable requests for it, from
  sessions that all start disabled while the count of the handle is 0. Each request makes
  at most one \<open>activate\<close> call, and makes one exactly when the number of sessions that
  want the handle leaves 0 or returns to 0. When the net demand is positive from the
  first request until the last one brings it back to 0, the first request calls
  \<open>activate(h, true)\<close>, the last calls \<open>activate(h, false)\<close>, no request in between
  calls \<open>activate\<close>, and the count ends at 0.
\<close>

theorem refcount_activate_once:
  assumes "smod_ok (smod m)" and "0 \<le> h" and "h \<le> handle_last (smod m)"
    and "sensors_enabled (smod m) ! nat h = 0"
    and "list_all (session_disabled m h) (map fst reqs)"
  shows "\<exists>calls m'. activate_all h reqs m = Inr (calls, m')
           \<and> map (filter is_activate) calls = edge_calls h {} reqs
           \<and> (crosses_zero_only_at_ends (demand {} reqs) \<longrightarrow>
                snd (hd reqs) \<noteq> 0
                \<and> map (filter is_activate) calls =
                    [Activate h (snd (hd reqs))] # replicate (length reqs - 2) []
                      @ [[Activate h 0]]
                \<and> sensors_enabled (smod m') ! nat h = 0)"
proof -
  have init: "counts_sessions h (fst ` set reqs) {} m"
    unfolding counts_sessions_def using assms
    by (auto simp: list_all_iff session_disabled_def split: option.splits)
  from activate_all_counts [OF init subset_refl]
  obtain calls m' where run: "activate_all h reqs m = Inr (calls, m')"
    "counts_sessions h (fst ` set reqs) (fold (\<lambda>r E. request E r) reqs {}) m'"
    "map (filter is_activate) calls = edge_calls h {} reqs"
    by blast
  have "sensors_enabled (smod m') ! nat h = 0"
    if burst: "crosses_zero_only_at_ends (demand {} reqs)"
  proof -
    from burst have "reqs \<noteq> []" "last (demand {} reqs) = 0"
      by (auto simp: crosses_zero_only_at_ends_def)
    then have "card (fold (\<lambda>r E. request E r) reqs {}) = 0"
      by (simp add: last_demand)
    with run(2) show ?thesis by (simp add: counts_sessions_def)
  qed
  then show ?thesis
    using run(1,3) edge_calls_burst [of reqs h] by auto
qed

lemma demo_burst: "crosses_zero_only_at_ends (demand {} demo_requests)"
  by code_simp

lemma demo_sessions_disabled: "list_all (session_disabled demo_sessions 1) (map fst demo_requests)"
  by (simp add: demo_requests_def session_disabled_def demo_sessions_def demo_idle_def client_ok_def)

theorem refcount_activate_once_witness:
  "\<exists>calls m'. activate_all 1 demo_requests demo_sessions = Inr (calls, m')
     \<and> map (filter is_activate) calls
         = [[Activate 1 1], [], [], [], [], [], [Activate 1 0]]
     \<and> sensors_enabled (smod m') ! nat 1 = 0"
proof -
  have ok: "smod_ok (smod demo_sessions)"
    by (simp add: demo_sessions_def smod_ok_def SMODULE_CLIENT_MAX_def)
  have h: "(0::int) \<le> 1" "(1::int) \<le> handle_last (smod demo_sessions)"
    by (simp_all add: demo_sessions_def)
  have z: "sensors_enabled (smod demo_sessions) ! nat 1 = 0"
    by (simp add: demo_sessions_def)
  have shape: "[Activate 1 (snd (hd demo_requests))] # replicate (length demo_requests - 2) []
                 @ [[Activate 1 0]] = [[Activate 1 1], [], [], [], [], [], [Activate 1 0]]"
    by (simp add: demo_requests_def numeral_eq_Suc)
  show ?thesis
    using refcount_activate_once [OF ok h z demo_sessions_disabled] demo_burst
    unfolding shape by auto
qed

subsection \<open>Delay aggregation\<close>

lemma clients_of_Cons:
  "hp a = Some c \<Longrightarrow> clients_of hp (Some a # slots) = c # clients_of hp slots"
  by (simp add: clients_of_def map_filter_simps)

lemma find_delay_min_fold:
  assumes "list_all (slot_ok hp hl) slots" and "0 \<le> h" and "h \<le> hl"
  shows "find_delay_min hp h slots acc =
           Inr (fold min (filter (\<lambda>d. 0 < d) (requested_delays h (clients_of hp slots))) acc)"
  using assms(1)
proof (induction slots arbitrary: acc)
  case Nil
  then show ?case by (simp add: clients_of_def requested_delays_def map_filter_simps)
next
  case (Cons slot slots)
  from Cons.prems have slot: "slot_ok hp hl slot" and rest: "list_all (slot_ok hp hl) slots"
    by simp_all
  from slot obtain a c where s: "slot = Some a" "hp a = Some c" "client_ok hl c"
    by (auto simp: slot_ok_def split: option.splits)
  have rng: "in_range h (client_sensor_delay_ns c)" "in_range h (client_sensor_enabled c)"
    using s(3) assms(2,3) by (simp_all add: client_ok_def in_range_ok)
  show ?case
    using Cons.IH [OF rest] s rng
    by (simp add: clients_of_Cons requested_delays_def Let_def min_def)
qed

lemma fold_min_sentinel:
  fixes xs :: "int list"
  shows "fold min xs a =
           (if filter (\<lambda>d. d < a) xs = [] then a else Min (set (filter (\<lambda>d. d < a) xs)))"
proof -
  have f: "fold min xs a = Min (insert a (set xs))"
    using Min.set_eq_fold [of a xs] by simp
  show ?thesis
  proof (cases "filter (\<lambda>d. d < a) xs = []")
    case True
    then have "\<forall>x\<in>set xs. a \<le> x"
      by (auto simp: filter_empty_conv)
    then have "Min (insert a (set xs)) = a"
      by (intro Min_eqI) auto
    with True f show ?thesis by simp
  next
    case False
    let ?S = "set (filter (\<lambda>d. d < a) xs)"
    have ne: "?S \<noteq> {}" "finite ?S" using False by (auto simp: filter_empty_conv)
    then have mem: "Min ?S \<in> ?S" by (intro Min_in)
    have "Min (insert a (set xs)) = Min ?S"
    proof (rule Min_eqI)
      show "finite (insert a (set xs))" by simp
      show "Min ?S \<in> insert a (set xs)" using mem by auto
      fix y assume "y \<in> insert a (set xs)"
      then consider "y = a" | "y \<in> set xs" "y < a" | "y \<in> set xs" "a \<le> y" by force
      then show "Min ?S \<le> y"
      proof cases
        case 1 then show ?thesis using mem by auto
      next
        case 2 then show ?thesis using ne by (intro Min_le) auto
      next
        case 3 then show ?thesis using mem by auto
      qed
    qed
    with False f show ?thesis by simp
  qed
qed

lemma find_delay_min_registered:
  assumes "registry_ok m" and "0 \<le> h" and "h \<le> handle_last (smod m)"
  shows "find_delay_min (heap m) h (take (nat (client_count (smod m))) (clients (smod m)))
           LLONG_MAX =
         Inr (if delay_requests m h = [] then LLONG_MAX else Min (set (delay_requests m h)))"
proof -
  have "filter (\<lambda>d. d < LLONG_MAX) (filter (\<lambda>d. 0 < d) (requested_delays h (registered m)))
          = delay_requests m h"
    by (simp add: delay_requests_def conj_commute)
  then show ?thesis
    using find_delay_min_fold [OF assms(1) [unfolded registry_ok_def] assms(2,3), of LLONG_MAX]
    by (simp add: fold_min_sentinel registered_def)
qed

lemma delay_requests_below:
  "delay_requests m h \<noteq> [] \<Longrightarrow> Min (set (delay_requests m h)) \<noteq> LLONG_MAX
      \<and> 0 < Min (set (delay_requests m h))"
proof -
  assume ne: "delay_requests m h \<noteq> []"
  then have "Min (set (delay_requests m h)) \<in> set (delay_requests m h)"
    by (intro Min_in) simp_all
  then show ?thesis by (auto simp: delay_requests_def)
qed

lemma update_delay_result:
  assumes "heap m client = Some c"
    and "smod_ok (smod m)" and "registry_ok m"
    and "0 \<le> h" and "h \<le> handle_last (smod m)"
  shows "smodule_client_update_delay client h m =
           Inr (if delay_requests m h = [] then m
                else if Min (set (delay_requests m h)) \<noteq> sensor_delay_ns (smod m) ! nat h
                then m\<lparr>smod := (smod m)\<lparr>sensor_delay_ns :=
                          (sensor_delay_ns (smod m))[nat h := Min (set (delay_requests m h))]\<rparr>,
                       hal := hal m @ [SetDelay h (Min (set (delay_requests m h)))]\<rparr>
                else m)"
proof -
  have rng: "in_range h (sensor_delay_ns (smod m))"
    using assms(2,4,5) by (simp add: smod_ok_def in_range_ok)
  show ?thesis
  proof (cases "delay_requests m h = []")
    case True
    then show ?thesis
      using assms(1,4,5)
      by (simp add: smodule_client_update_delay_def find_delay_min_registered [OF assms(3-5)])
  next
    case False
    from delay_requests_below [OF False]
    have "Min (set (delay_requests m h)) \<noteq> LLONG_MAX" "Min (set (delay_requests m h)) \<noteq> 0"
      by simp_all
    then show ?thesis
      using assms(1,4,5) rng False
      by (simp add: smodule_client_update_delay_def find_delay_min_registered [OF assms(3-5)])
  qed
qed


text \<open>
  Claim C7, as amended. \<open>smodule_client_update_delay\<close> computes the minimum over the
  requested delays of the registered sessions that have the handle enabled, where a
  request takes part when it is positive and below \<open>LLONG_MAX\<close>. When there is no such
  request, the machine is returned unchanged. Otherwise \<open>setDelay\<close> is called with the
  minimum and the minimum is stored exactly when it differs from the stored delay of the
  handle (a stored 0 always differs, the minimum being positive).
\<close>

theorem update_delay_pushes_minimum:
  assumes "heap m client = Some c"
    and "smod_ok (smod m)" and "registry_ok m"
    and "0 \<le> h" and "h \<le> handle_last (smod m)"
  shows "smodule_client_update_delay client h m =
           Inr (if delay_requests m h = [] then m
                else if Min (set (delay_requests m h)) \<noteq> sensor_delay_ns (smod m) ! nat h
                then m\<lparr>smod := (smod m)\<lparr>sensor_delay_ns :=
                          (sensor_delay_ns (smod m))[nat h := Min (set (delay_requests m h))]\<rparr>,
                       hal := hal m @ [SetDelay h (Min (set (delay_requests m h)))]\<rparr>
                else m)"
  using assms by (rule update_delay_result)

lemma demo_three_ok:
  "heap demo_three 1 = Some (demo_subscriber 6 20000000)"
  "smod_ok (smod demo_three)"
  "registry_ok demo_three"
  by (simp_all add: demo_three_def demo_subscriber_def client_ok_def smod_ok_def
      registry_ok_def slot_ok_def SMODULE_CLIENT_MAX_def)

lemma demo_three_reachable:
  "case run demo_three_history demo_boot of
     Inl f \<Rightarrow> False
   | Inr m \<Rightarrow> smodule_client_update_activate 1 0 1 m = Inr demo_three"
  by (simp add: demo_three_history_def demo_connects_def demo_boot_def demo_three_def
      demo_subscriber_def demo_handshake_def demo_sensors_def run_defs fun_upd_twist)

lemma demo_three_requests: "delay_requests demo_three 0 = [50000000, 20000000, 100000000]"
  by (simp add: delay_requests_def requested_delays_def registered_def clients_of_def
      map_filter_simps demo_three_def demo_subscriber_def LLONG_MAX_def)

theorem update_delay_pushes_minimum_witness:
  "smodule_client_update_delay 1 0 demo_three =
     Inr (demo_three\<lparr>smod := (smod demo_three)\<lparr>sensor_delay_ns := [20000000, 0]\<rparr>,
                     hal := [Activate 0 1, SetDelay 0 50000000, SetDelay 0 20000000]\<rparr>)"
proof -
  have h: "(0::int) \<le> 0" "(0::int) \<le> handle_last (smod demo_three)"
    by (simp_all add: demo_three_def)
  have s: "sensor_delay_ns (smod demo_three) = [50000000, 0]"
    "hal demo_three = [Activate 0 1, SetDelay 0 50000000]"
    by (simp_all add: demo_three_def)
  show ?thesis
    using update_delay_pushes_minimum [OF demo_three_ok h]
    by (simp add: demo_three_requests s)
qed

text \<open>
  The claim as stated fails for a request of \<open>LLONG_MAX\<close> nanoseconds: the one registered
  session has sensor 0 enabled and sets this positive delay, which differs from the
  stored 50, and the handler only records the request: no \<open>setDelay\<close> call is made and
  the stored delay stays.
\<close>

theorem update_delay_sentinel_counterexample:
  "smodule_client_handle_event 0 EPOLLIN
      (Received \<lparr>cmd_cmd = SENSORS_PROXY_CMD_SET_DELAY, cmd_handle = 0,
                 cmd_activate_enabled = 0, cmd_set_delay_ns = LLONG_MAX\<rparr>) demo_machine
     = Inr (demo_machine\<lparr>heap := (heap demo_machine)(0 \<mapsto>
              demo_client\<lparr>client_sensor_delay_ns := [LLONG_MAX, 30]\<rparr>)\<rparr>)
   \<and> registered demo_machine = [demo_client]
   \<and> client_sensor_enabled demo_client ! 0
   \<and> 0 < LLONG_MAX
   \<and> LLONG_MAX \<noteq> sensor_delay_ns (smod demo_machine) ! 0"
  by (simp add: smodule_client_handle_event_def smodule_client_update_delay_def recv_all_def
      registered_def clients_of_def map_filter_simps in_range_def
      demo_machine_def demo_client_def LLONG_MAX_def EPOLLIN_def
      SENSORS_PROXY_CMD_SET_DELAY_def SENSORS_PROXY_CMD_ACTIVATE_def)

subsection \<open>Handles taken from commands\<close>

lemma slot_ok_upd:
  "slot_ok hp hl slot \<Longrightarrow> client_ok hl c' \<Longrightarrow> slot_ok (hp(a \<mapsto> c')) hl slot"
  by (auto simp: slot_ok_def split: option.splits)

lemma slots_ok_upd:
  "list_all (slot_ok hp hl) slots \<Longrightarrow> client_ok hl c' \<Longrightarrow>
     list_all (slot_ok (hp(a \<mapsto> c')) hl) slots"
  by (induction slots) (simp_all add: slot_ok_upd)

lemma update_activate_safe:
  assumes c: "heap m client = Some c" "client_ok (handle_last (smod m)) c"
    and ok: "smod_ok (smod m)" and reg: "registry_ok m"
    and h: "0 \<le> h" "h \<le> handle_last (smod m)"
  shows "\<exists>m' c'. smodule_client_update_activate client h v m = Inr m'
           \<and> heap m' client = Some c' \<and> client_ok (handle_last (smod m')) c'
           \<and> smod_ok (smod m') \<and> registry_ok m'
           \<and> handle_last (smod m') = handle_last (smod m)
           \<and> asserts_on m' = asserts_on m"
proof -
  consider (nop) "(v \<noteq> 0) = client_sensor_enabled c ! nat h"
    | (enable) "v \<noteq> 0" "\<not> client_sensor_enabled c ! nat h"
    | (disable) "v = 0" "client_sensor_enabled c ! nat h"
    by blast
  then show ?thesis
  proof cases
    case nop
    show ?thesis
      using update_activate_nop [OF c ok h nop] c ok reg by simp
  next
    case enable
    show ?thesis
      using update_activate_enable [OF c ok h enable] c(2) ok reg
      by (simp add: smod_ok_def registry_ok_def client_ok_def slots_ok_upd)
  next
    case disable
    show ?thesis
      using update_activate_disable [OF c ok h disable(2)] c(2) ok reg disable(1)
      by (simp add: smod_ok_def registry_ok_def client_ok_def slots_ok_upd)
  qed
qed

lemma update_activate_unsafe:
  assumes "heap m client = Some c" and "smod_ok (smod m)"
    and "\<not> (0 \<le> h \<and> h \<le> handle_last (smod m))"
  shows "smodule_client_update_activate client h v m =
           Inl (if asserts_on m then AssertFailed else OutOfBounds)"
  using assms
  by (simp add: smodule_client_update_activate_def smod_ok_def in_range_ok)

lemma update_delay_safe:
  assumes "heap m client = Some c" and "smod_ok (smod m)" and "registry_ok m"
    and "0 \<le> h" and "h \<le> handle_last (smod m)"
  shows "\<exists>m'. smodule_client_update_delay client h m = Inr m'"
  using update_delay_result [OF assms] by simp

text \<open>
  Claim C10. The command handler passes the handle of a received command to the array
  accesses as it is. For an \<open>ACTIVATE\<close> or \<open>SET_DELAY\<close> command on a well-formed
  machine, the handler completes without a fault exactly when
  \<open>0 \<le> handle \<le> handle_last\<close>. For any other handle a \<open>SET_DELAY\<close> command is an
  access out of bounds even when assertions are compiled in, because the store into the
  session's delay array comes before the assertion of \<open>smodule_client_update_delay\<close>; an
  \<open>ACTIVATE\<close> command stops at the assertion when assertions are compiled in and is an
  access out of bounds otherwise.
\<close>

theorem command_handle_unchecked:
  assumes "heap m client = Some c"
    and "client_ok (handle_last (smod m)) c"
    and "smod_ok (smod m)" and "registry_ok m"
    and "cmd_cmd k = SENSORS_PROXY_CMD_ACTIVATE \<or> cmd_cmd k = SENSORS_PROXY_CMD_SET_DELAY"
  shows "((\<exists>m'. smodule_client_handle_event client EPOLLIN (Received k) m = Inr m')
            \<longleftrightarrow> 0 \<le> cmd_handle k \<and> cmd_handle k \<le> handle_last (smod m))
         \<and> (\<not> (0 \<le> cmd_handle k \<and> cmd_handle k \<le> handle_last (smod m)) \<longrightarrow>
              smodule_client_handle_event client EPOLLIN (Received k) m =
                Inl (if cmd_cmd k = SENSORS_PROXY_CMD_ACTIVATE \<and> asserts_on m
                     then AssertFailed else OutOfBounds))"
proof (cases "0 \<le> cmd_handle k \<and> cmd_handle k \<le> handle_last (smod m)")
  case True
  then have h: "0 \<le> cmd_handle k" "cmd_handle k \<le> handle_last (smod m)" by simp_all
  have "\<exists>m'. smodule_client_handle_event client EPOLLIN (Received k) m = Inr m'"
  proof (cases "cmd_cmd k = SENSORS_PROXY_CMD_ACTIVATE")
    case act: True
    from update_activate_safe [OF assms(1-4) h, of "cmd_activate_enabled k"]
    obtain m1 c1 where m1: "smodule_client_update_activate client (cmd_handle k)
          (cmd_activate_enabled k) m = Inr m1"
      "heap m1 client = Some c1" "smod_ok (smod m1)" "registry_ok m1"
      "handle_last (smod m1) = handle_last (smod m)"
      by blast
    from update_delay_safe [OF m1(2-4) h(1)] h(2) m1(5)
    obtain m2 where "smodule_client_update_delay client (cmd_handle k) m1 = Inr m2"
      by auto
    then show ?thesis
      using assms(1) act m1(1)
      by (simp add: smodule_client_handle_event_def recv_all_def EPOLLIN_def)
  next
    case False
    with assms(5) have sd: "cmd_cmd k = SENSORS_PROXY_CMD_SET_DELAY"
      "cmd_cmd k \<noteq> SENSORS_PROXY_CMD_ACTIVATE" by simp_all
    let ?c = "c\<lparr>client_sensor_delay_ns :=
                 (client_sensor_delay_ns c)[nat (cmd_handle k) := cmd_set_delay_ns k]\<rparr>"
    let ?m = "m\<lparr>heap := (heap m)(client \<mapsto> ?c)\<rparr>"
    have cok: "client_ok (handle_last (smod m)) ?c"
      using assms(2) by (simp add: client_ok_def)
    have "heap ?m client = Some ?c" "smod_ok (smod ?m)" "registry_ok ?m"
      "cmd_handle k \<le> handle_last (smod ?m)"
      using assms(3,4) h cok by (simp_all add: registry_ok_def slots_ok_upd)
    from update_delay_safe [OF this(1-3) h(1) this(4)]
    obtain m2 where "smodule_client_update_delay client (cmd_handle k) ?m = Inr m2"
      by auto
    moreover have "in_range (cmd_handle k) (client_sensor_delay_ns c)"
      using assms(2) h by (simp add: client_ok_def in_range_ok)
    ultimately show ?thesis
      using assms(1) sd
      by (simp add: smodule_client_handle_event_def recv_all_def EPOLLIN_def)
  qed
  with True show ?thesis by simp
next
  case False
  have "smodule_client_handle_event client EPOLLIN (Received k) m =
          Inl (if cmd_cmd k = SENSORS_PROXY_CMD_ACTIVATE \<and> asserts_on m
               then AssertFailed else OutOfBounds)"
  proof (cases "cmd_cmd k = SENSORS_PROXY_CMD_ACTIVATE")
    case True
    then show ?thesis
      using assms(1) update_activate_unsafe [OF assms(1,3) False, of "cmd_activate_enabled k"]
      by (simp add: smodule_client_handle_event_def recv_all_def EPOLLIN_def)
  next
    case notact: False
    with assms(5) have sd: "cmd_cmd k = SENSORS_PROXY_CMD_SET_DELAY" by simp
    have "\<not> in_range (cmd_handle k) (client_sensor_delay_ns c)"
      using assms(2) False by (simp add: client_ok_def in_range_ok)
    then show ?thesis
      using assms(1) sd notact
      by (simp add: smodule_client_handle_event_def recv_all_def EPOLLIN_def)
  qed
  with False show ?thesis by simp
qed

theorem command_handle_unchecked_witness:
  "smodule_client_handle_event 0 EPOLLIN
      (Received \<lparr>cmd_cmd = SENSORS_PROXY_CMD_SET_DELAY, cmd_handle = 2,
                 cmd_activate_enabled = 0, cmd_set_delay_ns = 10\<rparr>)
      (demo_machine\<lparr>asserts_on := True\<rparr>) = Inl OutOfBounds
   \<and> smodule_client_handle_event 0 EPOLLIN
      (Received \<lparr>cmd_cmd = SENSORS_PROXY_CMD_ACTIVATE, cmd_handle = -1,
                 cmd_activate_enabled = 1, cmd_set_delay_ns = 0\<rparr>)
      (demo_machine\<lparr>asserts_on := True\<rparr>) = Inl AssertFailed
   \<and> (\<exists>m'. smodule_client_handle_event 0 EPOLLIN
      (Received \<lparr>cmd_cmd = SENSORS_PROXY_CMD_ACTIVATE, cmd_handle = 1,
                 cmd_activate_enabled = 1, cmd_set_delay_ns = 0\<rparr>)
      (demo_machine\<lparr>asserts_on := True\<rparr>) = Inr m')"
proof -
  let ?m = "demo_machine\<lparr>asserts_on := True\<rparr>"
  have ok: "heap ?m 0 = Some demo_client" "client_ok (handle_last (smod ?m)) demo_client"
    "smod_ok (smod ?m)" "registry_ok ?m"
    using demo_machine_ok by (simp_all add: registry_ok_def)
  have hl: "handle_last (smod demo_machine) = 1"
    by (simp add: demo_machine_def)
  show ?thesis
    using command_handle_unchecked [OF ok, of "\<lparr>cmd_cmd = SENSORS_PROXY_CMD_SET_DELAY,
        cmd_handle = 2, cmd_activate_enabled = 0, cmd_set_delay_ns = 10\<rparr>"]
      command_handle_unchecked [OF ok, of "\<lparr>cmd_cmd = SENSORS_PROXY_CMD_ACTIVATE,
        cmd_handle = -1, cmd_activate_enabled = 1, cmd_set_delay_ns = 0\<rparr>"]
      command_handle_unchecked [OF ok, of "\<lparr>cmd_cmd = SENSORS_PROXY_CMD_ACTIVATE,
        cmd_handle = 1, cmd_activate_enabled = 1, cmd_set_delay_ns = 0\<rparr>"]
    by (simp add: hl SENSORS_PROXY_CMD_SET_DELAY_def SENSORS_PROXY_CMD_ACTIVATE_def)
qed

subsection \<open>Teardown\<close>

lemma disabled_by_refl:
  assumes "heap m client = Some c"
  shows "disabled_by client c [] m m"
proof -
  have "m = m\<lparr>heap := (heap m)(client \<mapsto> c),
               smod := (smod m)\<lparr>sensors_enabled := sensors_enabled (smod m)\<rparr>,
               hal := hal m @ []\<rparr>"
    using assms by (simp add: fun_upd_idem)
  then show ?thesis
    unfolding disabled_by_def
    by (intro exI [of _ c] exI [of _ "sensors_enabled (smod m)"]) simp
qed

lemma disable_sensors_effect:
  assumes "heap m client = Some c" and "client_ok (handle_last (smod m)) c"
    and "smod_ok (smod m)"
    and "\<forall>h\<in>set hs. 0 \<le> h \<and> h \<le> handle_last (smod m)" and "distinct hs"
  shows "\<exists>m'. disable_sensors client hs m = Inr m' \<and> disabled_by client c hs m m'"
  using assms
proof (induction hs arbitrary: m c)
  case Nil
  then show ?case by (simp add: disabled_by_refl)
next
  case (Cons i hs)
  let ?hl = "handle_last (smod m)"
  from Cons.prems have i: "0 \<le> i" "i \<le> ?hl" and rest: "\<forall>h\<in>set hs. 0 \<le> h \<and> h \<le> ?hl"
    and dist: "i \<notin> set hs" "distinct hs"
    by simp_all
  have rng: "in_range i (client_sensor_enabled c)"
    using Cons.prems(2) i by (simp add: client_ok_def in_range_ok)
  show ?case
  proof (cases "client_sensor_enabled c ! nat i")
    case False
    from Cons.IH [OF Cons.prems(1-3) rest dist(2)]
    obtain m' where m': "disable_sensors client hs m = Inr m'" "disabled_by client c hs m m'"
      by blast
    from m'(2) obtain c' se' where r:
      "m' = m\<lparr>heap := (heap m)(client \<mapsto> c'),
               smod := (smod m)\<lparr>sensors_enabled := se'\<rparr>,
               hal := hal m @ map (\<lambda>h. Activate h 0)
                 (filter (\<lambda>h. client_sensor_enabled c ! nat h
                               \<and> sensors_enabled (smod m) ! nat h = 1) hs)\<rparr>"
      "client_sock_fd c' = client_sock_fd c"
      "client_sensor_delay_ns c' = client_sensor_delay_ns c"
      "length (client_sensor_enabled c') = length (client_sensor_enabled c)"
      "\<forall>h. 0 \<le> h \<and> h \<le> ?hl \<longrightarrow>
              client_sensor_enabled c' ! nat h
                = (client_sensor_enabled c ! nat h \<and> h \<notin> set hs)"
      "length se' = length (sensors_enabled (smod m))"
      "\<forall>h. 0 \<le> h \<and> h \<le> ?hl \<longrightarrow>
              se' ! nat h
                = sensors_enabled (smod m) ! nat h
                    - (if h \<in> set hs \<and> client_sensor_enabled c ! nat h then 1 else 0)"
      unfolding disabled_by_def by blast
    have r5: "client_sensor_enabled c' ! nat h
                = (client_sensor_enabled c ! nat h \<and> h \<notin> set (i # hs))"
      if "0 \<le> h \<and> h \<le> ?hl" for h
      using r(5) that False by auto
    have r7: "se' ! nat h = sensors_enabled (smod m) ! nat h
                 - (if h \<in> set (i # hs) \<and> client_sensor_enabled c ! nat h then 1 else 0)"
      if "0 \<le> h \<and> h \<le> ?hl" for h
      using r(7) that False by auto
    have r1: "m' = m\<lparr>heap := (heap m)(client \<mapsto> c'),
               smod := (smod m)\<lparr>sensors_enabled := se'\<rparr>,
               hal := hal m @ map (\<lambda>h. Activate h 0)
                 (filter (\<lambda>h. client_sensor_enabled c ! nat h
                               \<and> sensors_enabled (smod m) ! nat h = 1) (i # hs))\<rparr>"
      using r(1) False by simp
    have "disabled_by client c (i # hs) m m'"
      unfolding disabled_by_def using r1 r(2-4,6) r5 r7 by blast
    then show ?thesis
      using m'(1) Cons.prems(1) rng False by simp
  next
    case True
    define c1 where "c1 = c\<lparr>client_sensors_enabled := client_sensors_enabled c - 1,
                 client_sensor_enabled := (client_sensor_enabled c)[nat i := False]\<rparr>"
    define t0 where "t0 = (if sensors_enabled (smod m) ! nat i = 1 then [Activate i 0] else [])"
    define m1 where "m1 = m\<lparr>heap := (heap m)(client \<mapsto> c1),
            smod := (smod m)\<lparr>sensors_enabled :=
               (sensors_enabled (smod m))[nat i := sensors_enabled (smod m) ! nat i - 1]\<rparr>,
            hal := hal m @ t0\<rparr>"
    have step: "smodule_client_update_activate client i 0 m = Inr m1"
      using update_activate_disable [OF Cons.prems(1-3) i True]
      by (simp add: m1_def c1_def t0_def)
    have p1: "heap m1 client = Some c1" "client_ok (handle_last (smod m1)) c1"
      "smod_ok (smod m1)" "handle_last (smod m1) = ?hl"
      using Cons.prems(2,3) by (simp_all add: m1_def c1_def client_ok_def smod_ok_def)
    from Cons.IH [OF p1(1-3) _ dist(2)] rest p1(4)
    obtain m' where m': "disable_sensors client hs m1 = Inr m'" "disabled_by client c1 hs m1 m'"
      by auto
    have li: "nat i < length (client_sensor_enabled c)" "nat i < length (sensors_enabled (smod m))"
      using Cons.prems(2,3) i by (simp_all add: client_ok_def smod_ok_def)
    have neq: "nat i = nat h \<longleftrightarrow> i = h" if "0 \<le> h" for h
      using i that by auto
    have fl1: "client_sensor_enabled c1 ! nat h = (client_sensor_enabled c ! nat h \<and> h \<noteq> i)"
      if "0 \<le> h" "h \<le> ?hl" for h
      using that li Cons.prems(2) neq [of h]
      by (auto simp: c1_def nth_list_update client_ok_def)
    have se1: "sensors_enabled (smod m1) ! nat h =
                 sensors_enabled (smod m) ! nat h - (if h = i then 1 else 0)"
      if "0 \<le> h" "h \<le> ?hl" for h
      using that li Cons.prems(3) neq [of h]
      by (auto simp: m1_def nth_list_update smod_ok_def)
    have filt: "filter (\<lambda>h. client_sensor_enabled c1 ! nat h
                         \<and> sensors_enabled (smod m1) ! nat h = 1) hs
              = filter (\<lambda>h. client_sensor_enabled c ! nat h
                         \<and> sensors_enabled (smod m) ! nat h = 1) hs"
      using rest dist(1) by (intro filter_cong refl) (auto simp: fl1 se1)
    from m'(2) obtain c' se' where r:
      "m' = m1\<lparr>heap := (heap m1)(client \<mapsto> c'),
               smod := (smod m1)\<lparr>sensors_enabled := se'\<rparr>,
               hal := hal m1 @ map (\<lambda>h. Activate h 0)
                 (filter (\<lambda>h. client_sensor_enabled c1 ! nat h
                               \<and> sensors_enabled (smod m1) ! nat h = 1) hs)\<rparr>"
      "client_sock_fd c' = client_sock_fd c1"
      "client_sensor_delay_ns c' = client_sensor_delay_ns c1"
      "length (client_sensor_enabled c') = length (client_sensor_enabled c1)"
      "\<forall>h. 0 \<le> h \<and> h \<le> ?hl \<longrightarrow>
              client_sensor_enabled c' ! nat h
                = (client_sensor_enabled c1 ! nat h \<and> h \<notin> set hs)"
      "length se' = length (sensors_enabled (smod m1))"
      "\<forall>h. 0 \<le> h \<and> h \<le> ?hl \<longrightarrow>
              se' ! nat h
                = sensors_enabled (smod m1) ! nat h
                    - (if h \<in> set hs \<and> client_sensor_enabled c1 ! nat h then 1 else 0)"
      unfolding disabled_by_def p1(4) by blast
    have t: "t0 @ map (\<lambda>h. Activate h 0)
               (filter (\<lambda>h. client_sensor_enabled c ! nat h
                             \<and> sensors_enabled (smod m) ! nat h = 1) hs)
             = map (\<lambda>h. Activate h 0)
               (filter (\<lambda>h. client_sensor_enabled c ! nat h
                             \<and> sensors_enabled (smod m) ! nat h = 1) (i # hs))"
      using True by (simp add: t0_def)
    have r1: "m' = m\<lparr>heap := (heap m)(client \<mapsto> c'),
               smod := (smod m)\<lparr>sensors_enabled := se'\<rparr>,
               hal := hal m @ map (\<lambda>h. Activate h 0)
                 (filter (\<lambda>h. client_sensor_enabled c ! nat h
                               \<and> sensors_enabled (smod m) ! nat h = 1) (i # hs))\<rparr>"
      unfolding t [symmetric] r(1) filt by (simp add: m1_def)
    have r2: "client_sock_fd c' = client_sock_fd c"
      "client_sensor_delay_ns c' = client_sensor_delay_ns c"
      "length (client_sensor_enabled c') = length (client_sensor_enabled c)"
      using r(2-4) by (simp_all add: c1_def)
    have r5: "client_sensor_enabled c' ! nat h
                = (client_sensor_enabled c ! nat h \<and> h \<notin> set (i # hs))"
      if "0 \<le> h \<and> h \<le> ?hl" for h
      using r(5) that fl1 [of h] by auto
    have r6: "length se' = length (sensors_enabled (smod m))"
      using r(6) by (simp add: m1_def)
    have r7: "se' ! nat h = sensors_enabled (smod m) ! nat h
                 - (if h \<in> set (i # hs) \<and> client_sensor_enabled c ! nat h then 1 else 0)"
      if "0 \<le> h \<and> h \<le> ?hl" for h
      using r(7) that fl1 [of h] se1 [of h] dist(1) True by auto
    have "disabled_by client c (i # hs) m m'"
      unfolding disabled_by_def using r1 r2 r5 r6 r7 by blast
    then show ?thesis
      using m'(1) step Cons.prems(1) rng True by simp
  qed
qed


lemma shift_left_nth:
  assumes "n < length cs"
  shows "length (foldl (\<lambda>cs j. cs[j := cs ! (j + 1)]) cs [i..<n]) = length cs \<and>
         (\<forall>k<length cs. foldl (\<lambda>cs j. cs[j := cs ! (j + 1)]) cs [i..<n] ! k
              = (if i \<le> k \<and> k < n then cs ! (k + 1) else cs ! k))"
  using assms
proof (induction n)
  case 0
  then show ?case by simp
next
  case (Suc n)
  let ?f = "\<lambda>cs j. cs[j := cs ! (j + 1)]"
  show ?case
  proof (cases "i \<le> n")
    case False
    then show ?thesis by auto
  next
    case True
    from Suc have n: "n < length cs" "Suc n < length cs" by simp_all
    from Suc.IH [OF n(1)]
    have len: "length (foldl ?f cs [i..<n]) = length cs"
      and nth: "\<And>k. k < length cs \<Longrightarrow> foldl ?f cs [i..<n] ! k
              = (if i \<le> k \<and> k < n then cs ! (k + 1) else cs ! k)"
      by simp_all
    have unfold: "foldl ?f cs [i..<Suc n]
          = (foldl ?f cs [i..<n])[n := foldl ?f cs [i..<n] ! (n + 1)]"
      using True by simp
    have next_: "foldl ?f cs [i..<n] ! (n + 1) = cs ! (n + 1)"
      using nth [of "n + 1"] n(2) by simp
    show ?thesis
      unfolding unfold next_ using len nth n True
      by (auto simp: nth_list_update)
  qed
qed

lemma remove_client_loop_absent:
  "\<forall>j\<in>set idxs. clients sm ! j \<noteq> Some client \<Longrightarrow>
     remove_client_loop client idxs sm = (-1, sm)"
  by (induction idxs) simp_all

lemma remove_client_loop_found:
  "\<forall>j\<in>set xs. clients sm ! j \<noteq> Some client \<Longrightarrow> clients sm ! i = Some client \<Longrightarrow>
     remove_client_loop client (xs @ i # ys) sm =
       (0, sm\<lparr>clients := (foldl (\<lambda>cs j. cs[j := cs ! (j + 1)]) (clients sm)
                             [i..<nat (client_count sm - 1)])
                          [nat (client_count sm - 1) := None],
              client_count := client_count sm - 1\<rparr>)"
  by (induction xs) (simp_all add: Let_def)

lemma remove_client_absent:
  assumes "smod_ok sm" and "registry_tidy sm"
    and "Some client \<notin> set (take (nat (client_count sm)) (clients sm))"
  shows "smodule_remove_client client sm = (-1, sm)"
    and "Some client \<notin> set (clients sm)"
proof -
  have "\<forall>j\<in>set [0..<nat (client_count sm)]. clients sm ! j \<noteq> Some client"
  proof
    fix j assume "j \<in> set [0..<nat (client_count sm)]"
    then have j: "j < nat (client_count sm)" by simp
    moreover have "nat (client_count sm) \<le> length (clients sm)"
      using assms(1) unfolding smod_ok_def by linarith
    ultimately have "clients sm ! j \<in> set (take (nat (client_count sm)) (clients sm))"
      by (auto simp: in_set_conv_nth intro!: exI [of _ j])
    with assms(3) show "clients sm ! j \<noteq> Some client" by auto
  qed
  then show "smodule_remove_client client sm = (-1, sm)"
    by (simp add: smodule_remove_client_def remove_client_loop_absent)
  have "Some client \<notin> set (drop (nat (client_count sm)) (clients sm))"
    using assms(2) by (auto simp: registry_tidy_def list_all_iff)
  with assms(3) have "Some client \<notin> set (take (nat (client_count sm)) (clients sm))
        \<union> set (drop (nat (client_count sm)) (clients sm))"
    by simp
  then show "Some client \<notin> set (clients sm)"
    unfolding set_append [symmetric] append_take_drop_id .
qed

lemma remove_client_present:
  assumes ok: "smod_ok sm" and tidy: "registry_tidy sm"
    and mem: "Some client \<in> set (take (nat (client_count sm)) (clients sm))"
  shows "\<exists>cs'. smodule_remove_client client sm =
            (0, sm\<lparr>clients := cs', client_count := client_count sm - 1\<rparr>)
          \<and> length cs' = length (clients sm)
          \<and> Some client \<notin> set cs'
          \<and> (\<forall>a. a \<noteq> client \<and> Some a \<in> set (take (nat (client_count sm)) (clients sm))
                \<longrightarrow> Some a \<in> set (take (nat (client_count sm - 1)) cs'))"
proof -
  let ?cc = "nat (client_count sm)" and ?cs = "clients sm"
  let ?f = "\<lambda>cs j. cs[j := cs ! (j + 1)]"
  have cc: "?cc \<le> length ?cs" "length ?cs = SMODULE_CLIENT_MAX" "0 \<le> client_count sm"
    using ok unfolding smod_ok_def by linarith+
  from mem cc obtain i where i: "i < ?cc" "?cs ! i = Some client"
    by (auto simp: in_set_conv_nth)
  have dist: "distinct (take ?cc ?cs)"
    using tidy by (simp add: registry_tidy_def)
  have tail: "?cs ! k = None" if "?cc \<le> k" "k < length ?cs" for k
  proof -
    have "drop ?cc ?cs ! (k - ?cc) \<in> set (drop ?cc ?cs)"
      using that by (intro nth_mem) simp
    then have "drop ?cc ?cs ! (k - ?cc) = None"
      using tidy by (auto simp: registry_tidy_def list_all_iff)
    then show ?thesis using that by simp
  qed
  have uniq: "?cs ! j \<noteq> Some client" if "j < ?cc" "j \<noteq> i" for j
  proof
    assume "?cs ! j = Some client"
    then have "take ?cc ?cs ! j = take ?cc ?cs ! i"
      using i that by simp
    moreover have "j < length (take ?cc ?cs)" "i < length (take ?cc ?cs)"
      using i that cc by simp_all
    ultimately show False
      using nth_eq_iff_index_eq [OF dist, of j i] that(2) by blast
  qed
  have split: "[0..<?cc] = [0..<i] @ i # [Suc i..<?cc]"
  proof -
    have "[0..<?cc] = [0..<i] @ [i..<?cc]"
      using i(1) upt_add_eq_append [of 0 i "?cc - i"] by simp
    then show ?thesis
      using i(1) by (simp add: upt_conv_Cons)
  qed
  have before: "\<forall>j\<in>set [0..<i]. ?cs ! j \<noteq> Some client"
    using uniq i(1) by auto
  define n where "n = nat (client_count sm - 1)"
  have n: "n = ?cc - 1" "n < length ?cs" "i \<le> n" "Suc n = ?cc"
    using i(1) cc by (auto simp: n_def)
  define cs' where "cs' = (foldl ?f ?cs [i..<n])[n := None]"
  have res: "smodule_remove_client client sm =
            (0, sm\<lparr>clients := cs', client_count := client_count sm - 1\<rparr>)"
    unfolding smodule_remove_client_def split cs'_def n_def
    by (rule remove_client_loop_found [OF before i(2)])
  from shift_left_nth [OF n(2), of i]
  have len: "length (foldl ?f ?cs [i..<n]) = length ?cs"
    and nth: "\<And>k. k < length ?cs \<Longrightarrow> foldl ?f ?cs [i..<n] ! k
              = (if i \<le> k \<and> k < n then ?cs ! (k + 1) else ?cs ! k)"
    by simp_all
  have len': "length cs' = length ?cs"
    using len by (simp add: cs'_def)
  have nth': "cs' ! k = (if k = n then None else if i \<le> k \<and> k < n then ?cs ! (k + 1) else ?cs ! k)"
    if "k < length ?cs" for k
    using that nth [OF that] len by (simp add: cs'_def nth_list_update)
  have gone: "Some client \<notin> set cs'"
  proof
    assume "Some client \<in> set cs'"
    then obtain k where k: "k < length ?cs" "cs' ! k = Some client"
      using len' by (auto simp: in_set_conv_nth)
    consider "k = n" | "k < i" | "i \<le> k" "k < n" | "n < k"
      using n(3) by linarith
    then show False
    proof cases
      case 1 then show ?thesis using k nth' [of k] by simp
    next
      case 2 then show ?thesis using k nth' [of k] uniq [of k] i(1) n by auto
    next
      case 3
      then have "k + 1 < ?cc" "k + 1 \<noteq> i" using n(4) by linarith+
      from uniq [OF this] show ?thesis using k nth' [of k] 3 by simp
    next
      case 4 then show ?thesis using k nth' [of k] tail [of k] n by auto
    qed
  qed
  have kept: "Some a \<in> set (take n cs')"
    if "a \<noteq> client" "Some a \<in> set (take ?cc ?cs)" for a
  proof -
    from that(2) cc obtain k where k: "k < ?cc" "?cs ! k = Some a"
      by (auto simp: in_set_conv_nth)
    have "k \<noteq> i" using k i that(1) by auto
    then consider "k < i" | "i < k" by linarith
    then obtain j where "j < n" "cs' ! j = Some a"
    proof cases
      case 1
      then have "k < n" "cs' ! k = Some a"
        using k n nth' [of k] by auto
      then show ?thesis by (rule that)
    next
      case 2
      then have "k - 1 < n" "cs' ! (k - 1) = Some a"
        using k n nth' [of "k - 1"] by auto
      then show ?thesis by (rule that)
    qed
    then show ?thesis
      using n(2) len' by (auto simp: in_set_conv_nth intro!: exI [of _ j])
  qed
  show ?thesis
    using res len' gone kept unfolding n_def by blast
qed


lemma client_free_effect:
  assumes c: "heap m client = Some c" "client_ok (handle_last (smod m)) c"
    and ok: "smod_ok (smod m)" and tidy: "registry_tidy (smod m)"
  shows "\<exists>m'. smodule_client_free client m = Inr m' \<and> torn_down client c m m'"
proof -
  let ?hs = "[0..handle_last (smod m)]"
  let ?tr = "map (\<lambda>h. Activate h 0)
                 (filter (\<lambda>h. client_sensor_enabled c ! nat h
                               \<and> sensors_enabled (smod m) ! nat h = 1) ?hs)"
  have "\<forall>h\<in>set ?hs. 0 \<le> h \<and> h \<le> handle_last (smod m)" "distinct ?hs"
    by simp_all
  from disable_sensors_effect [OF c ok this]
  obtain m1 where m1: "disable_sensors client ?hs m = Inr m1" "disabled_by client c ?hs m m1"
    by blast
  from m1(2) obtain c' se' where r:
      "m1 = m\<lparr>heap := (heap m)(client \<mapsto> c'),
               smod := (smod m)\<lparr>sensors_enabled := se'\<rparr>, hal := hal m @ ?tr\<rparr>"
      "client_sock_fd c' = client_sock_fd c"
      "length se' = length (sensors_enabled (smod m))"
      "\<forall>h. 0 \<le> h \<and> h \<le> handle_last (smod m) \<longrightarrow>
              se' ! nat h
                = sensors_enabled (smod m) ! nat h
                    - (if h \<in> set ?hs \<and> client_sensor_enabled c ! nat h then 1 else 0)"
    unfolding disabled_by_def by blast
  define sm1 where "sm1 = (smod m)\<lparr>sensors_enabled := se'\<rparr>"
  have sm1: "smod_ok sm1" "registry_tidy sm1" "clients sm1 = clients (smod m)"
    "client_count sm1 = client_count (smod m)" "sensor_delay_ns sm1 = sensor_delay_ns (smod m)"
    "sensors_enabled sm1 = se'" "handle_last sm1 = handle_last (smod m)"
    using ok tidy r(3) by (simp_all add: sm1_def smod_ok_def registry_tidy_def)
  have cnt: "se' ! nat h = sensors_enabled (smod m) ! nat h
                    - (if client_sensor_enabled c ! nat h then 1 else 0)"
    if "0 \<le> h \<and> h \<le> handle_last (smod m)" for h
    using r(4) that by simp
  have "\<exists>err sm'. smodule_remove_client client sm1 = (err, sm')
          \<and> Some client \<notin> set (clients sm')
          \<and> (\<forall>a. a \<noteq> client \<and> Some a \<in> set (take (nat (client_count sm1)) (clients sm1))
                \<longrightarrow> Some a \<in> set (take (nat (client_count sm')) (clients sm')))
          \<and> sensors_enabled sm' = se' \<and> sensor_delay_ns sm' = sensor_delay_ns (smod m)"
  proof (cases "Some client \<in> set (take (nat (client_count sm1)) (clients sm1))")
    case True
    from remove_client_present [OF sm1(1,2) True] show ?thesis
      using sm1(5,6) by auto
  next
    case False
    from remove_client_absent [OF sm1(1,2) False] show ?thesis
      using sm1(5,6) by auto
  qed
  then obtain err sm' where rm: "smodule_remove_client client sm1 = (err, sm')"
    "Some client \<notin> set (clients sm')"
    "\<forall>a. a \<noteq> client \<and> Some a \<in> set (take (nat (client_count sm1)) (clients sm1))
                \<longrightarrow> Some a \<in> set (take (nat (client_count sm')) (clients sm'))"
    "sensors_enabled sm' = se'" "sensor_delay_ns sm' = sensor_delay_ns (smod m)"
    by blast
  define m' where "m' = m\<lparr>heap := (heap m)(client := None), smod := sm',
      hal := hal m @ ?tr, epoll := filter (\<lambda>e. fst e \<noteq> client_sock_fd c) (epoll m)\<rparr>"
  have "smodule_client_free client m = Inr m'"
    using m1(1) rm(1) r(2)
    by (simp add: smodule_client_free_def r(1) epoll_del_fd_def m'_def sm1_def)
  moreover have "torn_down client c m m'"
    unfolding torn_down_def
    using rm(2-5) cnt sm1(3,4) by (simp add: m'_def)
  ultimately show ?thesis by blast
qed

lemma torn_down_errno [simp]:
  "torn_down client c (m\<lparr>errno := e\<rparr>) m' = torn_down client c m m'"
  by (simp add: torn_down_def)

text \<open>
  Claim C5, as amended. When reading a command fails because the peer shut the
  connection down, or with errno \<open>ECONNRESET\<close>, the session is torn down: every handle
  it has enabled is disabled (its count goes down by one, with \<open>activate(handle, 0)\<close>
  when the count was 1), the session leaves the registry and the set of descriptors
  waited on, and its memory is freed. When the read fails with any other errno, the
  handler only logs the failure: the machine is unchanged but for errno.
\<close>

theorem recv_failure_teardown:
  assumes "heap m client = Some c"
    and "client_ok (handle_last (smod m)) c"
    and "smod_ok (smod m)" and "registry_tidy (smod m)"
  shows "(r = PeerShutdown \<or> r = RecvError ECONNRESET \<longrightarrow>
            (\<exists>m'. smodule_client_handle_event client EPOLLIN r m = Inr m'
                  \<and> torn_down client c m m'))
         \<and> (\<forall>e. r = RecvError e \<and> e \<noteq> ECONNRESET \<longrightarrow>
               smodule_client_handle_event client EPOLLIN r m = Inr (m\<lparr>errno := e\<rparr>))"
proof -
  have free: "\<exists>m'. smodule_client_free client (m\<lparr>errno := ECONNRESET\<rparr>) = Inr m'
                  \<and> torn_down client c m m'"
    using client_free_effect [of "m\<lparr>errno := ECONNRESET\<rparr>" client c] assms by simp
  show ?thesis
    using assms(1) free
    by (auto simp: smodule_client_handle_event_def recv_all_def EPOLLIN_def)
qed

theorem recv_failure_teardown_witness:
  "(\<exists>m'. smodule_client_handle_event 0 EPOLLIN PeerShutdown demo_machine = Inr m'
        \<and> heap m' 0 = None \<and> Some 0 \<notin> set (clients (smod m'))
        \<and> sensors_enabled (smod m') ! 0 = 0
        \<and> hal m' = hal demo_machine @ [Activate 0 0])
   \<and> smodule_client_handle_event 0 EPOLLIN (RecvError 110) demo_machine
        = Inr (demo_machine\<lparr>errno := 110\<rparr>)"
proof -
  have tidy: "registry_tidy (smod demo_machine)"
    by (simp add: registry_tidy_def demo_machine_def)
  have hs: "[0..1::int] = [0, 1]"
    by (simp add: upto_rec1)
  have v: "sensors_enabled (smod demo_machine) = [1, 0]"
    "client_sensor_enabled demo_client = [True, False]"
    "handle_last (smod demo_machine) = 1"
    by (simp_all add: demo_machine_def demo_client_def)
  have "\<exists>m'. smodule_client_handle_event 0 EPOLLIN PeerShutdown demo_machine = Inr m'
        \<and> torn_down 0 demo_client demo_machine m'"
    using recv_failure_teardown [OF demo_machine_ok(1-3) tidy, of PeerShutdown] by simp
  then obtain m' where m': "smodule_client_handle_event 0 EPOLLIN PeerShutdown demo_machine = Inr m'"
    "torn_down 0 demo_client demo_machine m'"
    by blast
  from m'(2) have "heap m' 0 = None" "Some 0 \<notin> set (clients (smod m'))"
    "hal m' = hal demo_machine @ [Activate 0 0]"
    "\<forall>h. 0 \<le> h \<and> h \<le> 1 \<longrightarrow> sensors_enabled (smod m') ! nat h
             = [1, 0] ! nat h - (if [True, False] ! nat h then 1 else 0)"
    unfolding torn_down_def v hs by simp_all
  moreover from this(4) [rule_format, of 0] have "sensors_enabled (smod m') ! nat 0 = 0"
    by simp
  moreover have "smodule_client_handle_event 0 EPOLLIN (RecvError 110) demo_machine
        = Inr (demo_machine\<lparr>errno := 110\<rparr>)"
    using recv_failure_teardown [OF demo_machine_ok(1-3) tidy, of "RecvError 110"]
    by (simp add: ECONNRESET_def)
  ultimately show ?thesis
    using m'(1) by simp
qed

text \<open>
  The claim as stated fails for a read that fails with \<open>ETIMEDOUT\<close> (110): the session
  stays in the heap and in the registry, sensor 0 stays counted for it, and no device
  call is made.
\<close>

theorem recv_error_keeps_session_counterexample:
  "smodule_client_handle_event 0 EPOLLIN (RecvError 110) demo_machine
     = Inr (demo_machine\<lparr>errno := 110\<rparr>)
   \<and> heap (demo_machine\<lparr>errno := 110\<rparr>) 0 = Some demo_client
   \<and> clients (smod (demo_machine\<lparr>errno := 110\<rparr>)) ! 0 = Some 0
   \<and> client_sensor_enabled demo_client ! 0
   \<and> sensors_enabled (smod (demo_machine\<lparr>errno := 110\<rparr>)) ! 0 = 1
   \<and> hal (demo_machine\<lparr>errno := 110\<rparr>) = hal demo_machine"
  by (simp add: smodule_client_handle_event_def recv_all_def EPOLLIN_def ECONNRESET_def
      demo_machine_def demo_client_def)

subsection \<open>Delay aggregation over a run\<close>

lemma demo_boot_is_new: "smodule_new demo_sensors False (\<lambda>fd k. None) 5 = Some demo_boot"
  by (simp add: smodule_new_def demo_boot_def demo_sensors_def SMODULE_CLIENT_MAX_def
      numeral_eq_Suc)

text \<open>
  Claim C2, evaluated. After three clients have enabled sensor 0 and asked for 50 ms,
  20 ms and 100 ms, the last delay given to the device is the minimum, 20 ms. When the
  client that asked for 20 ms disables the sensor by a command, the minimum over the
  other two, 50 ms, is given to the device. When that client disconnects instead, the
  teardown makes no device call at all: the stored delay stays 20 ms although the
  requests of the remaining enabled sessions are 50 ms and 100 ms.
\<close>

theorem disconnect_keeps_stale_delay:
  "case run demo_subscribe demo_boot of
     Inl f \<Rightarrow> False
   | Inr m \<Rightarrow>
       hal m = [Activate 0 1, SetDelay 0 50000000, SetDelay 0 20000000]
       \<and> sensor_delay_ns (smod m) = [20000000, 0]
       \<and> delay_requests m 0 = [50000000, 20000000, 100000000]
       \<and> (case step (cmd_activate 1 0 0) m of
             Inl f \<Rightarrow> False
           | Inr m' \<Rightarrow>
               hal m' = hal m @ [SetDelay 0 50000000]
               \<and> sensor_delay_ns (smod m') = [50000000, 0]
               \<and> delay_requests m' 0 = [50000000, 100000000])
       \<and> (case step (Client 1 EPOLLIN PeerShutdown) m of
             Inl f \<Rightarrow> False
           | Inr m' \<Rightarrow>
               hal m' = hal m
               \<and> sensor_delay_ns (smod m') = [20000000, 0]
               \<and> sensors_enabled (smod m') = [2, 0]
               \<and> delay_requests m' 0 = [50000000, 100000000])"
  by code_simp

subsection \<open>The registry and new connections\<close>

lemma add_client_returns_minus_one: "fst (smodule_add_client client sm) = -1"
  by (simp add: smodule_add_client_def split: prod.splits)

lemma add_client_loop_full:
  "\<forall>i\<in>set idxs. clients sm ! i \<noteq> None \<Longrightarrow> add_client_loop client idxs sm = (-1, sm)"
  by (induction idxs) simp_all

lemma add_client_loop_free:
  "\<forall>j\<in>set xs. clients sm ! j \<noteq> None \<Longrightarrow> clients sm ! i = None \<Longrightarrow>
     add_client_loop client (xs @ i # ys) sm =
       (0, sm\<lparr>clients := (clients sm)[i := Some client], client_count := int i + 1\<rparr>)"
  by (induction xs) auto

lemma add_client_full:
  assumes "length (clients sm) = SMODULE_CLIENT_MAX" and "None \<notin> set (clients sm)"
  shows "smodule_add_client client sm = (-1, sm)"
proof -
  have "\<forall>i\<in>set [0..<SMODULE_CLIENT_MAX]. clients sm ! i \<noteq> None"
    using assms by (auto simp: in_set_conv_nth)
  then show ?thesis
    by (simp add: smodule_add_client_def add_client_loop_full)
qed

lemma add_client_free:
  assumes "i < SMODULE_CLIENT_MAX" and "clients sm ! i = None"
    and "\<forall>j<i. clients sm ! j \<noteq> None"
  shows "smodule_add_client client sm =
           (-1, sm\<lparr>clients := (clients sm)[i := Some client], client_count := int i + 1\<rparr>)"
proof -
  have "[0..<SMODULE_CLIENT_MAX] = [0..<i] @ [i..<SMODULE_CLIENT_MAX]"
    using assms(1) upt_add_eq_append [of 0 i "SMODULE_CLIENT_MAX - i"] by simp
  then have split: "[0..<SMODULE_CLIENT_MAX] = [0..<i] @ i # [Suc i..<SMODULE_CLIENT_MAX]"
    using assms(1) by (simp add: upt_conv_Cons)
  have "\<forall>j\<in>set [0..<i]. clients sm ! j \<noteq> None"
    using assms(3) by simp
  from add_client_loop_free [OF this assms(2)] show ?thesis
    unfolding smodule_add_client_def split by simp
qed

text \<open>
  Claim C3, evaluated. \<open>smodule_add_client\<close> binds the first free slot and sets the
  count, but returns -1 also then. With eight clients registered, a ninth connection is
  accepted and given the handshake; \<open>smodule_add_client\<close> leaves the registry as it was
  (no client is dropped), and the new client is neither closed nor freed: its object
  stays in the heap and its descriptor in the set the event loop waits on, so that an
  \<open>ACTIVATE\<close> command from it still reaches the device.
\<close>

theorem full_registry_keeps_connection:
  "smodule_add_client 0 (smod demo_boot)
     = (-1, (smod demo_boot)\<lparr>clients := [Some 0, None, None, None, None, None, None, None],
                             client_count := 1\<rparr>)
   \<and> (case run (replicate 8 (Listener EPOLLIN AllocOk)) demo_boot of
        Inl f \<Rightarrow> False
      | Inr m \<Rightarrow>
          clients (smod m) = [Some 0, Some 1, Some 2, Some 3, Some 4, Some 5, Some 6, Some 7]
          \<and> client_count (smod m) = 8
          \<and> next_fd m = 13 \<and> next_addr m = 8
          \<and> (case step (Listener EPOLLIN AllocOk) m of
                Inl f \<Rightarrow> False
              | Inr m' \<Rightarrow>
                  smod m' = smod m
                  \<and> (case heap m' 8 of None \<Rightarrow> False | Some c \<Rightarrow> client_sock_fd c = 13)
                  \<and> epoll m' = epoll m @ [(13, 8)]
                  \<and> closed_fds m' = []
                  \<and> outbox m' 13 = [PCount 2,
                       PStrings [(''accel'', ''acme''), (''gyro'', ''acme'')],
                       PSensors demo_sensors]
                  \<and> (case step (cmd_activate 8 1 1) m' of
                        Inl f \<Rightarrow> False
                      | Inr m'' \<Rightarrow> hal m'' = [Activate 1 1])))"
  by code_simp

text \<open>
  Claim C4, evaluated. Whichever of the three sends of the handshake fails (the first,
  the second or the third), the peer has received only the packets before it, and the
  client is registered all the same; once it enables sensor 0, the dispatcher sends it
  the events of sensor 0.
\<close>

theorem failed_handshake_still_registered:
  "list_all (\<lambda>k.
     case step (Listener EPOLLIN AllocOk) (demo_boot_failing k) of
       Inl f \<Rightarrow> False
     | Inr m \<Rightarrow>
         outbox m 5 = take k [PCount 2,
           PStrings [(''accel'', ''acme''), (''gyro'', ''acme'')], PSensors demo_sensors]
         \<and> clients (smod m) = [Some 0, None, None, None, None, None, None, None]
         \<and> client_count (smod m) = 1
         \<and> (case run [cmd_activate 0 0 1, Poll 1 [demo_event]] m of
               Inl f \<Rightarrow> False
             | Inr m' \<Rightarrow> outbox m' 5 = outbox m 5 @ [PEvent demo_event]))
     [0, 1, 2]"
  by code_simp

subsection \<open>Isolation\<close>

lemma send_effect:
  "send fd p m = (ret, m') \<Longrightarrow>
     heap m' = heap m \<and> smod m' = smod m \<and> next_fd m' = next_fd m
     \<and> (outbox m' = outbox m \<or> outbox m' = (outbox m)(fd := outbox m fd @ [p]))"
  by (auto simp: send_def split: option.splits)

lemma send_events_effect:
  "send_events c es m = Inr m' \<Longrightarrow>
     heap m' = heap m \<and> smod m' = smod m \<and> next_fd m' = next_fd m
     \<and> (\<exists>new. outbox m' = (outbox m)(client_sock_fd c :=
                   outbox m (client_sock_fd c) @ map PEvent new)
           \<and> (\<forall>e\<in>set new. in_range (sensor e) (client_sensor_enabled c)
                 \<and> client_sensor_enabled c ! nat (sensor e)))"
proof (induction es arbitrary: m)
  case Nil
  then show ?case by (auto intro!: exI [of _ "[]"])
next
  case (Cons e es)
  show ?case
  proof (cases "in_range (sensor e) (client_sensor_enabled c)
                \<and> client_sensor_enabled c ! nat (sensor e)")
    case False
    with Cons.prems have "send_events c es m = Inr m'"
      by (auto split: if_splits)
    from Cons.IH [OF this] show ?thesis .
  next
    case True
    obtain ret m1 where s: "send (client_sock_fd c) (PEvent e) m = (ret, m1)"
      by (cases "send (client_sock_fd c) (PEvent e) m")
    from send_effect [OF s] have m1: "heap m1 = heap m" "smod m1 = smod m"
      "next_fd m1 = next_fd m"
      "outbox m1 = outbox m \<or> outbox m1 = (outbox m)(client_sock_fd c :=
           outbox m (client_sock_fd c) @ [PEvent e])"
      by simp_all
    then obtain pre where pre: "outbox m1 = (outbox m)(client_sock_fd c :=
           outbox m (client_sock_fd c) @ map PEvent pre)" "set pre \<subseteq> {e}"
    proof (elim disjE)
      assume "outbox m1 = outbox m"
      then have "outbox m1 = (outbox m)(client_sock_fd c :=
           outbox m (client_sock_fd c) @ map PEvent [])" by simp
      then show ?thesis using that [of "[]"] by simp
    next
      assume "outbox m1 = (outbox m)(client_sock_fd c :=
           outbox m (client_sock_fd c) @ [PEvent e])"
      then show ?thesis using that [of "[e]"] by simp
    qed
    show ?thesis
    proof (cases "ret < 0")
      case neg: True
      with Cons.prems True s have "m' = m1" by simp
      then show ?thesis
        using m1(1-3) pre True by (auto intro!: exI [of _ pre])
    next
      case nonneg: False
      with Cons.prems True s have "send_events c es m1 = Inr m'" by simp
      from Cons.IH [OF this] obtain new where
        r: "heap m' = heap m1" "smod m' = smod m1" "next_fd m' = next_fd m1"
        "outbox m' = (outbox m1)(client_sock_fd c :=
                   outbox m1 (client_sock_fd c) @ map PEvent new)"
        "\<forall>e\<in>set new. in_range (sensor e) (client_sensor_enabled c)
                 \<and> client_sensor_enabled c ! nat (sensor e)"
        by blast
      have "outbox m' = (outbox m)(client_sock_fd c :=
                   outbox m (client_sock_fd c) @ map PEvent (pre @ new))"
        using r(4) pre(1) by simp
      moreover have "\<forall>e\<in>set (pre @ new). in_range (sensor e) (client_sensor_enabled c)
                 \<and> client_sensor_enabled c ! nat (sensor e)"
        using r(5) pre(2) True by auto
      ultimately show ?thesis
        using r(1-3) m1(1-3) by (intro conjI exI [of _ "pre @ new"]) simp_all
    qed
  qed
qed

lemma dispatch_clients_effect:
  "dispatch_clients slots es m = Inr m' \<Longrightarrow>
     heap m' = heap m \<and> smod m' = smod m \<and> next_fd m' = next_fd m
     \<and> (\<forall>fd. \<exists>new. outbox m' fd = outbox m fd @ map PEvent new
           \<and> (\<forall>e\<in>set new. \<exists>c\<in>set (clients_of (heap m) slots).
                 client_sock_fd c = fd \<and> in_range (sensor e) (client_sensor_enabled c)
                 \<and> client_sensor_enabled c ! nat (sensor e)))"
proof (induction slots arbitrary: m)
  case Nil
  then show ?case by (auto intro!: exI [of _ "[]"])
next
  case (Cons slot slots)
  from Cons.prems obtain a c where ac: "slot = Some a" "heap m a = Some c"
    by (auto split: option.splits)
  have co: "clients_of (heap m) (slot # slots) = c # clients_of (heap m) slots"
    using ac by (simp add: clients_of_Cons)
  show ?case
  proof (cases "client_sensors_enabled c \<le> 0")
    case True
    with Cons.prems ac have "dispatch_clients slots es m = Inr m'" by simp
    from Cons.IH [OF this] show ?thesis
      unfolding co by (simp, blast)
  next
    case False
    with Cons.prems ac obtain m1 where m1: "send_events c es m = Inr m1"
      "dispatch_clients slots es m1 = Inr m'"
      by (auto split: sum.splits)
    from send_events_effect [OF m1(1)] obtain new1 where
      s: "heap m1 = heap m" "smod m1 = smod m" "next_fd m1 = next_fd m"
      "outbox m1 = (outbox m)(client_sock_fd c :=
                   outbox m (client_sock_fd c) @ map PEvent new1)"
      "\<forall>e\<in>set new1. in_range (sensor e) (client_sensor_enabled c)
                 \<and> client_sensor_enabled c ! nat (sensor e)"
      by blast
    from Cons.IH [OF m1(2)] have
      d: "heap m' = heap m1" "smod m' = smod m1" "next_fd m' = next_fd m1"
      "\<And>fd. \<exists>new. outbox m' fd = outbox m1 fd @ map PEvent new
           \<and> (\<forall>e\<in>set new. \<exists>c\<in>set (clients_of (heap m1) slots).
                 client_sock_fd c = fd \<and> in_range (sensor e) (client_sensor_enabled c)
                 \<and> client_sensor_enabled c ! nat (sensor e))"
      by blast+
    have "\<exists>new. outbox m' fd = outbox m fd @ map PEvent new
           \<and> (\<forall>e\<in>set new. \<exists>c\<in>set (clients_of (heap m) (slot # slots)).
                 client_sock_fd c = fd \<and> in_range (sensor e) (client_sensor_enabled c)
                 \<and> client_sensor_enabled c ! nat (sensor e))" for fd
    proof -
      from d(4) [of fd] obtain new2 where n2: "outbox m' fd = outbox m1 fd @ map PEvent new2"
        "\<forall>e\<in>set new2. \<exists>c\<in>set (clients_of (heap m) slots).
                 client_sock_fd c = fd \<and> in_range (sensor e) (client_sensor_enabled c)
                 \<and> client_sensor_enabled c ! nat (sensor e)"
        unfolding s(1) by blast
      show ?thesis
      proof (cases "fd = client_sock_fd c")
        case True
        have "outbox m' fd = outbox m fd @ map PEvent (new1 @ new2)"
          using n2(1) s(4) True by simp
        moreover have "\<forall>e\<in>set (new1 @ new2). \<exists>c\<in>set (clients_of (heap m) (slot # slots)).
                 client_sock_fd c = fd \<and> in_range (sensor e) (client_sensor_enabled c)
                 \<and> client_sensor_enabled c ! nat (sensor e)"
          unfolding co using s(5) n2(2) True by auto
        ultimately show ?thesis by blast
      next
        case False
        have "outbox m' fd = outbox m fd @ map PEvent new2"
          using n2(1) s(4) False by simp
        moreover have "\<forall>e\<in>set new2. \<exists>c\<in>set (clients_of (heap m) (slot # slots)).
                 client_sock_fd c = fd \<and> in_range (sensor e) (client_sensor_enabled c)
                 \<and> client_sensor_enabled c ! nat (sensor e)"
          unfolding co using n2(2) by auto
        ultimately show ?thesis by blast
      qed
    qed
    then show ?thesis
      using s(1-3) d(1-3) by simp
  qed
qed

lemma clients_of_heap:
  "c \<in> set (clients_of hp slots) \<Longrightarrow> \<exists>a. hp a = Some c"
  by (induction slots)
    (auto simp: clients_of_def map_filter_simps split: option.splits)

lemma poll_thread_effect:
  assumes "smodule_poll_thread n evs m = Inr m'"
  shows "heap m' = heap m \<and> smod m' = smod m \<and> next_fd m' = next_fd m
     \<and> (\<forall>fd. \<exists>new. outbox m' fd = outbox m fd @ map PEvent new
           \<and> (\<forall>e\<in>set new. \<exists>c\<in>set (registered m).
                 client_sock_fd c = fd \<and> in_range (sensor e) (client_sensor_enabled c)
                 \<and> client_sensor_enabled c ! nat (sensor e)))"
proof (cases "n \<le> 0")
  case True
  with assms have "m' = m" by (simp add: smodule_poll_thread_def)
  then show ?thesis by (auto intro!: exI [of _ "[]"])
next
  case False
  with assms have "dispatch_clients (take (nat (client_count (smod m))) (clients (smod m)))
             (take (nat n) evs) m = Inr m'"
    by (simp add: smodule_poll_thread_def)
  from dispatch_clients_effect [OF this] show ?thesis
    by (simp add: registered_def)
qed


lemma isolated_frame:
  assumes "isolated fd h s m"
    and "next_fd m \<le> next_fd m'" and "outbox m' fd = outbox m fd"
    and "\<And>a c. heap m' a = Some c \<Longrightarrow> client_sock_fd c = fd \<Longrightarrow> heap m a = Some c"
  shows "isolated fd h s m'"
  using assms unfolding isolated_def by (intro conjI allI impI) force+

lemma update_activate_shape:
  "smodule_client_update_activate a h' v m = Inr m' \<Longrightarrow>
     m' = m \<or>
     (\<exists>c. heap m a = Some c \<and> in_range h' (client_sensor_enabled c)
        \<and> next_fd m' = next_fd m \<and> outbox m' = outbox m
        \<and> heap m' = (heap m)(a \<mapsto>
             c\<lparr>client_sensors_enabled := client_sensors_enabled c + (if v \<noteq> 0 then 1 else - 1),
               client_sensor_enabled := (client_sensor_enabled c)[nat h' := (v \<noteq> 0)]\<rparr>))"
  by (auto simp: smodule_client_update_activate_def activate_device_def Let_def
      split: option.splits if_splits)

lemma update_delay_shape:
  "smodule_client_update_delay a h' m = Inr m' \<Longrightarrow>
     heap m' = heap m \<and> outbox m' = outbox m \<and> next_fd m' = next_fd m"
  by (auto simp: smodule_client_update_delay_def split: option.splits if_splits sum.splits)

lemma update_activate_isolated:
  assumes iso: "isolated fd h s m"
    and run: "smodule_client_update_activate a h' v m = Inr m'"
    and quiet: "\<not> (a = s \<and> h' = h \<and> v \<noteq> 0)"
  shows "isolated fd h s m'"
proof -
  from update_activate_shape [OF run] consider "m' = m"
    | c where "heap m a = Some c" "in_range h' (client_sensor_enabled c)"
        "next_fd m' = next_fd m" "outbox m' = outbox m"
        "heap m' = (heap m)(a \<mapsto>
             c\<lparr>client_sensors_enabled := client_sensors_enabled c + (if v \<noteq> 0 then 1 else - 1),
               client_sensor_enabled := (client_sensor_enabled c)[nat h' := (v \<noteq> 0)]\<rparr>)"
    by blast
  then show ?thesis
  proof cases
    case 1
    with iso show ?thesis by simp
  next
    case (2 c)
    have "a' = s \<and> \<not> (in_range h (client_sensor_enabled c')
                        \<and> client_sensor_enabled c' ! nat h)"
      if c': "heap m' a' = Some c'" "client_sock_fd c' = fd" for a' c'
    proof (cases "a' = a")
      case False
      with c' 2(5) have "heap m a' = Some c'" by simp
      with iso c'(2) show ?thesis by (auto simp: isolated_def)
    next
      case True
      with c' 2(5) have c'_eq: "c' = c\<lparr>client_sensors_enabled :=
                 client_sensors_enabled c + (if v \<noteq> 0 then 1 else - 1),
               client_sensor_enabled := (client_sensor_enabled c)[nat h' := (v \<noteq> 0)]\<rparr>"
        by simp
      then have "client_sock_fd c = fd" using c'(2) by simp
      with iso 2(1) have as: "a = s"
        and off: "\<not> (in_range h (client_sensor_enabled c) \<and> client_sensor_enabled c ! nat h)"
        by (auto simp: isolated_def)
      have "\<not> (in_range h ((client_sensor_enabled c)[nat h' := (v \<noteq> 0)])
              \<and> (client_sensor_enabled c)[nat h' := (v \<noteq> 0)] ! nat h)"
      proof (cases "h' = h")
        case True
        with quiet as have "v = 0" by simp
        with True show ?thesis by (auto simp: in_range_def)
      next
        case False
        show ?thesis
        proof
          assume on: "in_range h ((client_sensor_enabled c)[nat h' := (v \<noteq> 0)])
              \<and> (client_sensor_enabled c)[nat h' := (v \<noteq> 0)] ! nat h"
          then have "nat h' \<noteq> nat h"
            using False 2(2) by (auto simp: in_range_def)
          with on off show False by (simp add: in_range_def)
        qed
      qed
      with True as c'_eq show ?thesis by simp
    qed
    then show ?thesis
      using iso 2(3,4) unfolding isolated_def by auto
  qed
qed

lemma disable_sensors_isolated:
  "isolated fd h s m \<Longrightarrow> disable_sensors a hs m = Inr m' \<Longrightarrow> isolated fd h s m'"
proof (induction hs arbitrary: m)
  case Nil
  then show ?case by simp
next
  case (Cons i hs)
  from Cons.prems(2) obtain c where c: "heap m a = Some c"
    by (auto split: option.splits)
  show ?case
  proof (cases "client_sensor_enabled c ! nat i")
    case False
    with Cons.prems(2) c have "disable_sensors a hs m = Inr m'"
      by (auto split: if_splits)
    from Cons.IH [OF Cons.prems(1) this] show ?thesis .
  next
    case True
    with Cons.prems(2) c obtain m1 where m1: "smodule_client_update_activate a i 0 m = Inr m1"
      "disable_sensors a hs m1 = Inr m'"
      by (auto split: if_splits sum.splits)
    have "isolated fd h s m1"
      by (rule update_activate_isolated [OF Cons.prems(1) m1(1)]) simp
    from Cons.IH [OF this m1(2)] show ?thesis .
  qed
qed

lemma client_free_isolated:
  assumes "isolated fd h s m" and "smodule_client_free a m = Inr m'"
  shows "isolated fd h s m'"
proof -
  from assms(2) obtain m1 c where m1: "disable_sensors a [0..handle_last (smod m)] m = Inr m1"
    "heap m1 a = Some c"
    and m': "m' = (epoll_del_fd (client_sock_fd c) m1)
               \<lparr>smod := snd (smodule_remove_client a (smod (epoll_del_fd (client_sock_fd c) m1))),
                heap := (heap m1)(a := None)\<rparr>"
    by (auto simp: smodule_client_free_def Let_def epoll_del_fd_def
        split: sum.splits option.splits prod.splits)
  have "isolated fd h s m1"
    by (rule disable_sensors_isolated [OF assms(1) m1(1)])
  then show ?thesis
    by (rule isolated_frame) (auto simp: m' epoll_del_fd_def split: if_splits)
qed

lemma send_list_effect:
  "smodule_client_send_list c m = (ret, m') \<Longrightarrow>
     heap m' = heap m \<and> smod m' = smod m \<and> next_fd m' = next_fd m
     \<and> (\<forall>fd. fd \<noteq> client_sock_fd c \<longrightarrow> outbox m' fd = outbox m fd)"
  by (auto simp: smodule_client_send_list_def send_def Let_def
      split: option.splits prod.splits if_splits)

lemma handle_event_isolated:
  assumes "isolated fd h s m"
  shows "isolated fd h s (smodule_handle_event events env m)"
proof (cases "events AND EPOLLIN \<noteq> 0")
  case False
  with assms show ?thesis by (simp add: smodule_handle_event_def)
next
  case True
  have fd: "fd < next_fd m" using assms by (simp add: isolated_def)
  show ?thesis
  proof (cases env)
    case AllocOk
    define c where "c = \<lparr>client_sock_fd = next_fd m, client_sensors_enabled = 0,
        client_sensor_enabled = replicate (nat (handle_last (smod m) + 1)) False,
        client_sensor_delay_ns = replicate (nat (handle_last (smod m) + 1)) 0\<rparr>"
    define m2 where "m2 = epoll_add_fd (next_fd m) (next_addr m)
        (m\<lparr>next_fd := next_fd m + 1, next_addr := Suc (next_addr m),
           heap := (heap m)(next_addr m \<mapsto> c)\<rparr>)"
    obtain ret m3 where sl: "smodule_client_send_list c m2 = (ret, m3)"
      by (cases "smodule_client_send_list c m2")
    from send_list_effect [OF sl] have m3: "heap m3 = heap m2" "next_fd m3 = next_fd m2"
      "outbox m3 fd = outbox m2 fd"
      using fd by (simp_all add: c_def)
    have res: "smodule_handle_event events env m =
        m3\<lparr>smod := snd (smodule_add_client (next_addr m) (smod m3))\<rparr>"
      using True AllocOk sl by (simp add: smodule_handle_event_def Let_def c_def m2_def)
    show ?thesis
      unfolding res
      by (rule isolated_frame [OF assms])
        (use m3 fd in \<open>auto simp: m2_def epoll_add_fd_def c_def split: if_splits\<close>)
  next
    case (AcceptFails e)
    show ?thesis
      by (rule isolated_frame [OF assms])
        (use True AcceptFails in \<open>simp_all add: smodule_handle_event_def\<close>)
  next
    case NoMemClient
    show ?thesis
      by (rule isolated_frame [OF assms])
        (use True NoMemClient in \<open>simp_all add: smodule_handle_event_def close_fd_def\<close>)
  next
    case NoMemEnabled
    show ?thesis
      by (rule isolated_frame [OF assms])
        (use True NoMemEnabled in \<open>simp_all add: smodule_handle_event_def close_fd_def\<close>)
  next
    case NoMemDelay
    show ?thesis
      by (rule isolated_frame [OF assms])
        (use True NoMemDelay in \<open>simp_all add: smodule_handle_event_def close_fd_def\<close>)
  qed
qed

lemma handle_event_no_input:
  "heap m a = Some c \<Longrightarrow> events AND EPOLLIN = 0 \<Longrightarrow>
     smodule_client_handle_event a events r m =
       (if errno m = ECONNRESET then smodule_client_free a m else Inr m)"
  by (simp add: smodule_client_handle_event_def)

lemma handle_event_shutdown:
  "heap m a = Some c \<Longrightarrow> events AND EPOLLIN \<noteq> 0 \<Longrightarrow>
     smodule_client_handle_event a events PeerShutdown m =
       smodule_client_free a (m\<lparr>errno := ECONNRESET\<rparr>)"
  by (simp add: smodule_client_handle_event_def recv_all_def)

lemma handle_event_error:
  "heap m a = Some c \<Longrightarrow> events AND EPOLLIN \<noteq> 0 \<Longrightarrow>
     smodule_client_handle_event a events (RecvError e) m =
       (if e = ECONNRESET then smodule_client_free a (m\<lparr>errno := e\<rparr>)
        else Inr (m\<lparr>errno := e\<rparr>))"
  by (simp add: smodule_client_handle_event_def recv_all_def)

lemma handle_event_received:
  "heap m a = Some c \<Longrightarrow> events AND EPOLLIN \<noteq> 0 \<Longrightarrow>
     smodule_client_handle_event a events (Received k) m =
       (if cmd_cmd k = SENSORS_PROXY_CMD_ACTIVATE then
          (case smodule_client_update_activate a (cmd_handle k) (cmd_activate_enabled k) m of
             Inl f \<Rightarrow> Inl f
           | Inr m2 \<Rightarrow> smodule_client_update_delay a (cmd_handle k) m2)
        else if cmd_cmd k = SENSORS_PROXY_CMD_SET_DELAY then
          (if \<not> in_range (cmd_handle k) (client_sensor_delay_ns c) then Inl OutOfBounds
           else smodule_client_update_delay a (cmd_handle k)
                  (m\<lparr>heap := (heap m)(a \<mapsto> c\<lparr>client_sensor_delay_ns :=
                      (client_sensor_delay_ns c)[nat (cmd_handle k) := cmd_set_delay_ns k]\<rparr>)\<rparr>))
        else Inr m)"
  by (simp add: smodule_client_handle_event_def recv_all_def)

lemma client_handle_event_isolated:
  assumes iso: "isolated fd h s m"
    and run: "smodule_client_handle_event a events r m = Inr m'"
    and quiet: "\<not> enables s h (Client a events r)"
  shows "isolated fd h s m'"
proof -
  from run obtain c where c: "heap m a = Some c"
    by (cases "heap m a") (simp_all add: smodule_client_handle_event_def)
  have iso_errno: "isolated fd h s (m\<lparr>errno := e\<rparr>)" for e
    by (rule isolated_frame [OF iso]) simp_all
  show ?thesis
  proof (cases "events AND EPOLLIN \<noteq> 0")
    case False
    then have "events AND EPOLLIN = 0" by simp
    from run handle_event_no_input [OF c this, of r]
    consider "m' = m" | "smodule_client_free a m = Inr m'"
      by (cases "errno m = ECONNRESET") simp_all
    then show ?thesis
    proof cases
      case 1
      with iso show ?thesis by simp
    next
      case 2
      from client_free_isolated [OF iso this] show ?thesis .
    qed
  next
    case True
    show ?thesis
    proof (cases r)
      case PeerShutdown
      with run handle_event_shutdown [OF c True]
      have "smodule_client_free a (m\<lparr>errno := ECONNRESET\<rparr>) = Inr m'"
        by simp
      from client_free_isolated [OF iso_errno this] show ?thesis .
    next
      case (RecvError e)
      with run handle_event_error [OF c True, of e] consider "m' = m\<lparr>errno := e\<rparr>"
        | "smodule_client_free a (m\<lparr>errno := e\<rparr>) = Inr m'"
        by (cases "e = ECONNRESET") auto
      then show ?thesis
      proof cases
        case 1
        with iso_errno show ?thesis by simp
      next
        case 2
        from client_free_isolated [OF iso_errno this] show ?thesis .
      qed
    next
      case (Received k)
      note ev = handle_event_received [OF c True, of k]
      consider (act) "cmd_cmd k = SENSORS_PROXY_CMD_ACTIVATE"
        | (delay) "cmd_cmd k \<noteq> SENSORS_PROXY_CMD_ACTIVATE"
            "cmd_cmd k = SENSORS_PROXY_CMD_SET_DELAY"
        | (other) "cmd_cmd k \<noteq> SENSORS_PROXY_CMD_ACTIVATE"
            "cmd_cmd k \<noteq> SENSORS_PROXY_CMD_SET_DELAY"
        by blast
      then show ?thesis
      proof cases
        case act
        with run Received ev obtain m1 where
          m1: "smodule_client_update_activate a (cmd_handle k) (cmd_activate_enabled k) m = Inr m1"
            "smodule_client_update_delay a (cmd_handle k) m1 = Inr m'"
          by (auto split: sum.splits)
        have "\<not> (a = s \<and> cmd_handle k = h \<and> cmd_activate_enabled k \<noteq> 0)"
          using quiet Received act by simp
        from update_activate_isolated [OF iso m1(1) this] have "isolated fd h s m1" .
        then show ?thesis
          by (rule isolated_frame) (use update_delay_shape [OF m1(2)] in simp_all)
      next
        case delay
        let ?m = "m\<lparr>heap := (heap m)(a \<mapsto> c\<lparr>client_sensor_delay_ns :=
                    (client_sensor_delay_ns c)[nat (cmd_handle k) := cmd_set_delay_ns k]\<rparr>)\<rparr>"
        from run Received delay ev
        have d: "smodule_client_update_delay a (cmd_handle k) ?m = Inr m'"
          by (auto split: if_splits)
        have "isolated fd h s ?m"
          unfolding isolated_def
        proof (intro conjI allI impI)
          show "fd < next_fd ?m" "\<not> list_ex (event_for h) (outbox ?m fd)"
            using iso by (simp_all add: isolated_def)
          fix a' c'
          assume "heap ?m a' = Some c' \<and> client_sock_fd c' = fd"
          then show "a' = s" "\<not> (in_range h (client_sensor_enabled c')
                 \<and> client_sensor_enabled c' ! nat h)"
            using iso c unfolding isolated_def
            by (cases "a' = a"; force)+
        qed
        then show ?thesis
          by (rule isolated_frame) (use update_delay_shape [OF d] in simp_all)
      next
        case other
        with run Received ev have "m' = m" by simp
        with iso show ?thesis by simp
      qed
    qed
  qed
qed


lemma poll_thread_isolated:
  assumes iso: "isolated fd h s m" and run: "smodule_poll_thread n evs m = Inr m'"
  shows "isolated fd h s m'"
proof -
  from poll_thread_effect [OF run] obtain new where
    e: "heap m' = heap m" "next_fd m' = next_fd m"
    "outbox m' fd = outbox m fd @ map PEvent new"
    "\<forall>e\<in>set new. \<exists>c\<in>set (registered m).
        client_sock_fd c = fd \<and> in_range (sensor e) (client_sensor_enabled c)
        \<and> client_sensor_enabled c ! nat (sensor e)"
    by blast
  have "sensor e \<noteq> h" if "e \<in> set new" for e
  proof
    assume h: "sensor e = h"
    from e(4) that obtain c where c: "c \<in> set (registered m)" "client_sock_fd c = fd"
      "in_range (sensor e) (client_sensor_enabled c)" "client_sensor_enabled c ! nat (sensor e)"
      by blast
    from clients_of_heap [OF c(1) [unfolded registered_def]] obtain a where "heap m a = Some c"
      by blast
    with iso c(2) have "\<not> (in_range h (client_sensor_enabled c)
                        \<and> client_sensor_enabled c ! nat h)"
      by (auto simp: isolated_def)
    with c(3,4) h show False by simp
  qed
  then have "\<not> list_ex (event_for h) (map PEvent new)"
    by (auto simp: list_ex_iff event_for_def)
  then show ?thesis
    using iso e(1-3) unfolding isolated_def by auto
qed

lemma step_isolated:
  assumes "isolated fd h s m" and "step a m = Inr m'" and "\<not> enables s h a"
  shows "isolated fd h s m'"
proof (cases a)
  case (Listener events env)
  with assms(2) have "m' = smodule_handle_event events env m" by simp
  with handle_event_isolated [OF assms(1)] show ?thesis by simp
next
  case (Client c events r)
  with assms(2,3) client_handle_event_isolated [OF assms(1)] show ?thesis by simp
next
  case (Poll n evs)
  with assms(2) poll_thread_isolated [OF assms(1)] show ?thesis by simp
qed

lemma run_isolated:
  "isolated fd h s m \<Longrightarrow> run acts m = Inr m' \<Longrightarrow> \<not> list_ex (enables s h) acts \<Longrightarrow>
     isolated fd h s m'"
proof (induction acts arbitrary: m)
  case Nil
  then show ?case by simp
next
  case (Cons a acts)
  from Cons.prems(2) obtain m1 where m1: "step a m = Inr m1" "run acts m1 = Inr m'"
    by (auto split: sum.splits)
  from Cons.prems(3) have q: "\<not> enables s h a" "\<not> list_ex (enables s h) acts"
    by simp_all
  from step_isolated [OF Cons.prems(1) m1(1) q(1)] have "isolated fd h s m1" .
  from Cons.IH [OF this m1(2) q(2)] show ?case .
qed

lemma fresh_client_isolated:
  assumes "\<forall>a c. heap m a = Some c \<longrightarrow> client_sock_fd c < next_fd m"
    and "outbox m (next_fd m) = []"
  shows "isolated (next_fd m) h (next_addr m) (smodule_handle_event EPOLLIN AllocOk m)"
proof -
  define c where "c = \<lparr>client_sock_fd = next_fd m, client_sensors_enabled = 0,
        client_sensor_enabled = replicate (nat (handle_last (smod m) + 1)) False,
        client_sensor_delay_ns = replicate (nat (handle_last (smod m) + 1)) 0\<rparr>"
  define m2 where "m2 = epoll_add_fd (next_fd m) (next_addr m)
        (m\<lparr>next_fd := next_fd m + 1, next_addr := Suc (next_addr m),
           heap := (heap m)(next_addr m \<mapsto> c)\<rparr>)"
  obtain ret m3 where sl: "smodule_client_send_list c m2 = (ret, m3)"
    by (cases "smodule_client_send_list c m2")
  from send_list_effect [OF sl] have m3: "heap m3 = heap m2" "next_fd m3 = next_fd m2"
    by simp_all
  have ob: "\<not> list_ex (event_for h) (outbox m3 (next_fd m))"
    using sl assms(2)
    by (auto simp: smodule_client_send_list_def send_def Let_def c_def m2_def epoll_add_fd_def
        event_for_def split: option.splits prod.splits if_splits)
  have res: "smodule_handle_event EPOLLIN AllocOk m =
        m3\<lparr>smod := snd (smodule_add_client (next_addr m) (smod m3))\<rparr>"
    using sl by (simp add: smodule_handle_event_def Let_def c_def m2_def EPOLLIN_def)
  have flags: "\<not> (in_range h (client_sensor_enabled c) \<and> client_sensor_enabled c ! nat h)"
    by (auto simp: c_def in_range_def)
  show ?thesis
    unfolding res isolated_def
  proof (intro conjI allI impI)
    show "next_fd m < next_fd (m3\<lparr>smod := snd (smodule_add_client (next_addr m) (smod m3))\<rparr>)"
      using m3 by (simp add: m2_def epoll_add_fd_def)
    show "\<not> list_ex (event_for h)
        (outbox (m3\<lparr>smod := snd (smodule_add_client (next_addr m) (smod m3))\<rparr>) (next_fd m))"
      using ob by simp
    fix a c'
    assume "heap (m3\<lparr>smod := snd (smodule_add_client (next_addr m) (smod m3))\<rparr>) a = Some c'
              \<and> client_sock_fd c' = next_fd m"
    then have h: "((heap m)(next_addr m \<mapsto> c)) a = Some c'" "client_sock_fd c' = next_fd m"
      using m3 by (simp_all add: m2_def epoll_add_fd_def)
    have "a = next_addr m"
    proof (rule ccontr)
      assume "a \<noteq> next_addr m"
      with h(1) have "heap m a = Some c'" by simp
      with assms(1) h(2) show False by force
    qed
    then show "a = next_addr m"
      "\<not> (in_range h (client_sensor_enabled c') \<and> client_sensor_enabled c' ! nat h)"
      using h(1) flags by simp_all
  qed
qed

lemma fds_fresh_same:
  "fds_fresh m \<Longrightarrow> heap m' = heap m \<Longrightarrow> next_fd m' = next_fd m \<Longrightarrow>
     outbox m' = outbox m \<Longrightarrow> fds_fresh m'"
  by (simp add: fds_fresh_def)

lemma update_activate_fresh:
  assumes "fds_fresh m" and "smodule_client_update_activate a h v m = Inr m'"
  shows "fds_fresh m'"
proof -
  from update_activate_shape [OF assms(2)] consider "m' = m"
    | c where "heap m a = Some c" "next_fd m' = next_fd m" "outbox m' = outbox m"
        "heap m' = (heap m)(a \<mapsto>
             c\<lparr>client_sensors_enabled := client_sensors_enabled c + (if v \<noteq> 0 then 1 else - 1),
               client_sensor_enabled := (client_sensor_enabled c)[nat h := (v \<noteq> 0)]\<rparr>)"
    by blast
  then show ?thesis
  proof cases
    case 1
    with assms(1) show ?thesis by simp
  next
    case (2 c)
    have "client_sock_fd c' < next_fd m" if "heap m' a' = Some c'" for a' c'
    proof (cases "a' = a")
      case True
      with that 2(4) have "client_sock_fd c' = client_sock_fd c" by auto
      with assms(1) 2(1) show ?thesis by (auto simp: fds_fresh_def)
    next
      case False
      with that 2(4) have "heap m a' = Some c'" by simp
      with assms(1) show ?thesis by (auto simp: fds_fresh_def)
    qed
    then show ?thesis
      using assms(1) 2(2,3) unfolding fds_fresh_def by auto
  qed
qed

lemma disable_sensors_fresh:
  "fds_fresh m \<Longrightarrow> disable_sensors a hs m = Inr m' \<Longrightarrow> fds_fresh m'"
proof (induction hs arbitrary: m)
  case Nil
  then show ?case by simp
next
  case (Cons i hs)
  from Cons.prems(2) obtain c where c: "heap m a = Some c"
    by (cases "heap m a") simp_all
  show ?case
  proof (cases "client_sensor_enabled c ! nat i")
    case False
    with Cons.prems(2) c have "disable_sensors a hs m = Inr m'"
      by (auto split: if_splits)
    from Cons.IH [OF Cons.prems(1) this] show ?thesis .
  next
    case True
    with Cons.prems(2) c obtain m1 where m1: "smodule_client_update_activate a i 0 m = Inr m1"
      "disable_sensors a hs m1 = Inr m'"
      by (auto split: if_splits sum.splits)
    from Cons.IH [OF update_activate_fresh [OF Cons.prems(1) m1(1)] m1(2)] show ?thesis .
  qed
qed

lemma client_free_fresh:
  assumes "fds_fresh m" and "smodule_client_free a m = Inr m'"
  shows "fds_fresh m'"
proof -
  from assms(2) obtain m1 c where m1: "disable_sensors a [0..handle_last (smod m)] m = Inr m1"
    and m': "heap m' = (heap m1)(a := None)" "next_fd m' = next_fd m1" "outbox m' = outbox m1"
    by (auto simp: smodule_client_free_def Let_def epoll_del_fd_def
        split: sum.splits option.splits prod.splits)
  from disable_sensors_fresh [OF assms(1) m1] show ?thesis
    unfolding fds_fresh_def m' by (auto split: if_splits)
qed

lemma handle_event_fresh:
  assumes "fds_fresh m"
  shows "fds_fresh (smodule_handle_event events env m)"
proof (cases "events AND EPOLLIN \<noteq> 0")
  case False
  with assms show ?thesis by (simp add: smodule_handle_event_def)
next
  case True
  show ?thesis
  proof (cases env)
    case AllocOk
    define c where "c = \<lparr>client_sock_fd = next_fd m, client_sensors_enabled = 0,
        client_sensor_enabled = replicate (nat (handle_last (smod m) + 1)) False,
        client_sensor_delay_ns = replicate (nat (handle_last (smod m) + 1)) 0\<rparr>"
    define m2 where "m2 = epoll_add_fd (next_fd m) (next_addr m)
        (m\<lparr>next_fd := next_fd m + 1, next_addr := Suc (next_addr m),
           heap := (heap m)(next_addr m \<mapsto> c)\<rparr>)"
    obtain ret m3 where sl: "smodule_client_send_list c m2 = (ret, m3)"
      by (cases "smodule_client_send_list c m2")
    from send_list_effect [OF sl] have m3: "heap m3 = heap m2" "next_fd m3 = next_fd m2"
      "\<And>fd. fd \<noteq> next_fd m \<Longrightarrow> outbox m3 fd = outbox m2 fd"
      by (simp_all add: c_def)
    have res: "smodule_handle_event events env m =
        m3\<lparr>smod := snd (smodule_add_client (next_addr m) (smod m3))\<rparr>"
      using True AllocOk sl by (simp add: smodule_handle_event_def Let_def c_def m2_def)
    have h: "heap m3 = (heap m)(next_addr m \<mapsto> c)" "next_fd m3 = next_fd m + 1"
      "\<And>fd. fd \<noteq> next_fd m \<Longrightarrow> outbox m3 fd = outbox m fd"
      using m3 by (simp_all add: m2_def epoll_add_fd_def)
    have "client_sock_fd c' < next_fd m + 1" if "heap m3 a' = Some c'" for a' c'
    proof (cases "a' = next_addr m")
      case True
      with that h(1) show ?thesis by (auto simp: c_def)
    next
      case False
      with that h(1) have "heap m a' = Some c'" by simp
      with assms have "client_sock_fd c' < next_fd m" by (auto simp: fds_fresh_def)
      then show ?thesis by simp
    qed
    moreover have "outbox m3 fd = []" if "next_fd m + 1 \<le> fd" for fd
      using that h(3) [of fd] assms by (simp add: fds_fresh_def)
    ultimately show ?thesis
      unfolding res fds_fresh_def using h(2) by simp
  next
    case (AcceptFails e)
    with assms True show ?thesis
      by (simp add: smodule_handle_event_def fds_fresh_def)
  next
    case NoMemClient
    with assms True show ?thesis
      by (force simp: smodule_handle_event_def close_fd_def fds_fresh_def)
  next
    case NoMemEnabled
    with assms True show ?thesis
      by (force simp: smodule_handle_event_def close_fd_def fds_fresh_def)
  next
    case NoMemDelay
    with assms True show ?thesis
      by (force simp: smodule_handle_event_def close_fd_def fds_fresh_def)
  qed
qed

lemma client_handle_event_fresh:
  assumes fresh: "fds_fresh m"
    and run: "smodule_client_handle_event a events r m = Inr m'"
  shows "fds_fresh m'"
proof -
  from run obtain c where c: "heap m a = Some c"
    by (cases "heap m a") (simp_all add: smodule_client_handle_event_def)
  have fresh_errno: "fds_fresh (m\<lparr>errno := e\<rparr>)" for e
    using fresh by (simp add: fds_fresh_def)
  show ?thesis
  proof (cases "events AND EPOLLIN \<noteq> 0")
    case False
    then have "events AND EPOLLIN = 0" by simp
    from run handle_event_no_input [OF c this, of r]
    consider "m' = m" | "smodule_client_free a m = Inr m'"
      by (cases "errno m = ECONNRESET") simp_all
    then show ?thesis
    proof cases
      case 1
      with fresh show ?thesis by simp
    next
      case 2
      from client_free_fresh [OF fresh this] show ?thesis .
    qed
  next
    case True
    show ?thesis
    proof (cases r)
      case PeerShutdown
      with run handle_event_shutdown [OF c True]
      have "smodule_client_free a (m\<lparr>errno := ECONNRESET\<rparr>) = Inr m'"
        by simp
      from client_free_fresh [OF fresh_errno this] show ?thesis .
    next
      case (RecvError e)
      with run handle_event_error [OF c True, of e] consider "m' = m\<lparr>errno := e\<rparr>"
        | "smodule_client_free a (m\<lparr>errno := e\<rparr>) = Inr m'"
        by (cases "e = ECONNRESET") auto
      then show ?thesis
      proof cases
        case 1
        with fresh_errno show ?thesis by simp
      next
        case 2
        from client_free_fresh [OF fresh_errno this] show ?thesis .
      qed
    next
      case (Received k)
      note ev = handle_event_received [OF c True, of k]
      consider (act) "cmd_cmd k = SENSORS_PROXY_CMD_ACTIVATE"
        | (delay) "cmd_cmd k \<noteq> SENSORS_PROXY_CMD_ACTIVATE"
            "cmd_cmd k = SENSORS_PROXY_CMD_SET_DELAY"
        | (other) "cmd_cmd k \<noteq> SENSORS_PROXY_CMD_ACTIVATE"
            "cmd_cmd k \<noteq> SENSORS_PROXY_CMD_SET_DELAY"
        by blast
      then show ?thesis
      proof cases
        case act
        with run Received ev obtain m1 where
          m1: "smodule_client_update_activate a (cmd_handle k) (cmd_activate_enabled k) m = Inr m1"
            "smodule_client_update_delay a (cmd_handle k) m1 = Inr m'"
          by (auto split: sum.splits)
        from update_activate_fresh [OF fresh m1(1)] have "fds_fresh m1" .
        then show ?thesis
          by (rule fds_fresh_same) (use update_delay_shape [OF m1(2)] in simp_all)
      next
        case delay
        let ?m = "m\<lparr>heap := (heap m)(a \<mapsto> c\<lparr>client_sensor_delay_ns :=
                    (client_sensor_delay_ns c)[nat (cmd_handle k) := cmd_set_delay_ns k]\<rparr>)\<rparr>"
        from run Received delay ev
        have d: "smodule_client_update_delay a (cmd_handle k) ?m = Inr m'"
          by (auto split: if_splits)
        have "fds_fresh ?m"
          using fresh c unfolding fds_fresh_def by (auto split: if_splits)
        then show ?thesis
          by (rule fds_fresh_same) (use update_delay_shape [OF d] in simp_all)
      next
        case other
        with run Received ev have "m' = m" by simp
        with fresh show ?thesis by simp
      qed
    qed
  qed
qed

lemma poll_thread_fresh:
  assumes fresh: "fds_fresh m" and run: "smodule_poll_thread n evs m = Inr m'"
  shows "fds_fresh m'"
proof -
  from poll_thread_effect [OF run] have
    e: "heap m' = heap m" "next_fd m' = next_fd m"
    "\<And>fd. \<exists>new. outbox m' fd = outbox m fd @ map PEvent new
        \<and> (\<forall>e\<in>set new. \<exists>c\<in>set (registered m). client_sock_fd c = fd
              \<and> in_range (sensor e) (client_sensor_enabled c)
              \<and> client_sensor_enabled c ! nat (sensor e))"
    by blast+
  have "outbox m' fd = []" if "next_fd m \<le> fd" for fd
  proof -
    from e(3) [of fd] obtain new where new: "outbox m' fd = outbox m fd @ map PEvent new"
      "\<forall>e\<in>set new. \<exists>c\<in>set (registered m). client_sock_fd c = fd
              \<and> in_range (sensor e) (client_sensor_enabled c)
              \<and> client_sensor_enabled c ! nat (sensor e)"
      by blast
    have "new = []"
    proof (rule ccontr)
      assume "new \<noteq> []"
      then obtain e where "e \<in> set new" by (cases new) auto
      with new(2) obtain c where c: "c \<in> set (registered m)" "client_sock_fd c = fd"
        by blast
      from clients_of_heap [OF c(1) [unfolded registered_def]] obtain a where "heap m a = Some c"
        by blast
      with fresh have "client_sock_fd c < next_fd m" unfolding fds_fresh_def by blast
      with c(2) that show False by simp
    qed
    with new(1) fresh that show ?thesis by (simp add: fds_fresh_def)
  qed
  then show ?thesis
    using fresh e(1,2) unfolding fds_fresh_def by simp
qed

lemma run_fresh:
  "fds_fresh m \<Longrightarrow> run acts m = Inr m' \<Longrightarrow> fds_fresh m'"
proof (induction acts arbitrary: m)
  case Nil
  then show ?case by simp
next
  case (Cons a acts)
  from Cons.prems(2) obtain m1 where m1: "step a m = Inr m1" "run acts m1 = Inr m'"
    by (auto split: sum.splits)
  have "fds_fresh m1"
  proof (cases a)
    case (Listener events env)
    with m1(1) handle_event_fresh [OF Cons.prems(1)] show ?thesis by auto
  next
    case (Client c events r)
    with m1(1) client_handle_event_fresh [OF Cons.prems(1)] show ?thesis by auto
  next
    case (Poll n evs)
    with m1(1) poll_thread_fresh [OF Cons.prems(1)] show ?thesis by auto
  qed
  from Cons.IH [OF this m1(2)] show ?case .
qed

lemma smodule_new_fresh:
  "smodule_new sl asserts peers fd0 = Some m \<Longrightarrow> fds_fresh m"
  by (auto simp: smodule_new_def fds_fresh_def Let_def split: if_splits)

lemma run_append:
  "run (xs @ ys) m = (case run xs m of Inl f \<Rightarrow> Inl f | Inr m' \<Rightarrow> run ys m')"
  by (induction xs arbitrary: m) (auto split: sum.splits)

lemma session_isolated_since_connection:
  assumes boot: "smodule_new sl asserts peers fd0 = Some m0"
    and pre: "run pre m0 = Inr m"
    and post: "run (Listener EPOLLIN AllocOk # post) m = Inr m'"
    and quiet: "\<not> list_ex (enables (next_addr m) h) post"
  shows "\<not> list_ex (event_for h) (outbox m' (next_fd m))"
proof -
  have fresh: "fds_fresh m"
    by (rule run_fresh [OF smodule_new_fresh [OF boot] pre])
  then have "isolated (next_fd m) h (next_addr m) (smodule_handle_event EPOLLIN AllocOk m)"
    by (intro fresh_client_isolated) (auto simp: fds_fresh_def)
  moreover from post have "run post (smodule_handle_event EPOLLIN AllocOk m) = Inr m'"
    by simp
  ultimately have "isolated (next_fd m) h (next_addr m) m'"
    using quiet by (rule run_isolated)
  then show ?thesis
    unfolding isolated_def by blast
qed

text \<open>
  Claim C8. In one pass of the dispatcher, every packet added to the outbox of a
  descriptor is an event whose handle is enabled, at that moment, in a registered session
  with this descriptor. And over any run of the server (connections, commands, failures,
  teardowns and dispatcher passes, in any order): when the session \<open>s\<close> has handle \<open>h\<close>
  disabled and has not been sent an event of \<open>h\<close>, and no action of the run is an
  \<open>ACTIVATE\<close> command of \<open>s\<close> that enables \<open>h\<close>, then at the end of the run no event of
  \<open>h\<close> has been sent on the descriptor of \<open>s\<close>, whatever the other sessions enabled and
  received. In particular, in a run from start-up, a session is never sent an event of
  \<open>h\<close> between its connection and the end of the run when it sends no \<open>ACTIVATE\<close>
  command that enables \<open>h\<close>.
\<close>

theorem never_enabled_never_sent:
  "(smodule_poll_thread n evs m = Inr m' \<longrightarrow>
      (\<exists>new. outbox m' fd = outbox m fd @ map PEvent new
         \<and> (\<forall>e\<in>set new. \<exists>c\<in>set (registered m).
               client_sock_fd c = fd \<and> in_range (sensor e) (client_sensor_enabled c)
               \<and> client_sensor_enabled c ! nat (sensor e))))
   \<and> (isolated fd h s m \<and> \<not> list_ex (enables s h) acts \<and> run acts m = Inr m'' \<longrightarrow>
        isolated fd h s m'' \<and> \<not> list_ex (event_for h) (outbox m'' fd))
   \<and> (smodule_new sl asserts peers fdz = Some start \<and> run pre start = Inr before
        \<and> run (Listener EPOLLIN AllocOk # post) before = Inr after
        \<and> \<not> list_ex (enables (next_addr before) h) post \<longrightarrow>
        \<not> list_ex (event_for h) (outbox after (next_fd before)))"
proof (intro conjI impI)
  assume "smodule_poll_thread n evs m = Inr m'"
  from poll_thread_effect [OF this]
  show "\<exists>new. outbox m' fd = outbox m fd @ map PEvent new
         \<and> (\<forall>e\<in>set new. \<exists>c\<in>set (registered m).
               client_sock_fd c = fd \<and> in_range (sensor e) (client_sensor_enabled c)
               \<and> client_sensor_enabled c ! nat (sensor e))"
    by blast
next
  assume a: "isolated fd h s m \<and> \<not> list_ex (enables s h) acts \<and> run acts m = Inr m''"
  then have "isolated fd h s m''"
    using run_isolated [of fd h s m acts m''] by blast
  then show "isolated fd h s m''" "\<not> list_ex (event_for h) (outbox m'' fd)"
    unfolding isolated_def by blast+
next
  assume "smodule_new sl asserts peers fdz = Some start \<and> run pre start = Inr before
        \<and> run (Listener EPOLLIN AllocOk # post) before = Inr after
        \<and> \<not> list_ex (enables (next_addr before) h) post"
  then show "\<not> list_ex (event_for h) (outbox after (next_fd before))"
    using session_isolated_since_connection [of sl asserts peers fdz start pre before post
        after h]
    by blast
qed

lemma demo_traffic_run:
  "case run demo_traffic demo_sessions of
     Inl f \<Rightarrow> False
   | Inr m \<Rightarrow> outbox m 5 = demo_handshake @ [PEvent demo_event, PEvent demo_event]
       \<and> outbox m 6 = demo_handshake @ [PEvent demo_event1]
       \<and> outbox m 7 = demo_handshake @ [PEvent demo_event]
       \<and> sensors_enabled (smod m) = [2, 1]"
  by code_simp

lemma demo_session_life_run:
  "case run [Listener EPOLLIN AllocOk] demo_boot of
     Inl f \<Rightarrow> False
   | Inr m1 \<Rightarrow> next_addr m1 = 1 \<and> next_fd m1 = 6
       \<and> (case run (Listener EPOLLIN AllocOk # demo_session_life) m1 of
             Inl f \<Rightarrow> False
           | Inr m2 \<Rightarrow> list_ex (event_for 1) (outbox m2 6)
               \<and> list_ex (event_for 0) (outbox m2 5))"
  by code_simp

theorem never_enabled_never_sent_witness:
  "(\<exists>m'. run demo_traffic demo_sessions = Inr m'
      \<and> \<not> list_ex (event_for 0) (outbox m' 6)
      \<and> outbox m' 6 = demo_handshake @ [PEvent demo_event1]
      \<and> outbox m' 5 = demo_handshake @ [PEvent demo_event, PEvent demo_event]
      \<and> sensors_enabled (smod m') = [2, 1])
   \<and> (\<exists>m1 m2. run [Listener EPOLLIN AllocOk] demo_boot = Inr m1
         \<and> run (Listener EPOLLIN AllocOk # demo_session_life) m1 = Inr m2
         \<and> \<not> list_ex (event_for 0) (outbox m2 6)
         \<and> list_ex (event_for 1) (outbox m2 6)
         \<and> list_ex (event_for 0) (outbox m2 5))"
proof -
  from demo_traffic_run obtain m' where m': "run demo_traffic demo_sessions = Inr m'"
    "outbox m' 5 = demo_handshake @ [PEvent demo_event, PEvent demo_event]"
    "outbox m' 6 = demo_handshake @ [PEvent demo_event1]"
    "sensors_enabled (smod m') = [2, 1]"
    by (auto split: sum.splits)
  have iso: "isolated 6 0 1 demo_sessions"
    by (auto simp: isolated_def demo_sessions_def demo_idle_def demo_handshake_def
        event_for_def in_range_def split: if_splits)
  have quiet: "\<not> list_ex (enables 1 0) demo_traffic"
    by (simp add: demo_traffic_def cmd_activate_def cmd_set_delay_def
        SENSORS_PROXY_CMD_ACTIVATE_def SENSORS_PROXY_CMD_SET_DELAY_def)
  from demo_session_life_run obtain m1 m2 where
    life: "run [Listener EPOLLIN AllocOk] demo_boot = Inr m1" "next_addr m1 = 1" "next_fd m1 = 6"
      "run (Listener EPOLLIN AllocOk # demo_session_life) m1 = Inr m2"
      "list_ex (event_for 1) (outbox m2 6)" "list_ex (event_for 0) (outbox m2 5)"
    by (auto split: sum.splits)
  have quiet_life: "\<not> list_ex (enables (next_addr m1) 0) demo_session_life"
    by (simp add: life(2) demo_session_life_def cmd_activate_def cmd_set_delay_def
        SENSORS_PROXY_CMD_ACTIVATE_def SENSORS_PROXY_CMD_SET_DELAY_def)
  have a: "\<not> list_ex (event_for 0) (outbox m' 6)"
    using never_enabled_never_sent [where fd = 6 and h = 0 and s = 1 and m = demo_sessions
        and acts = demo_traffic and m'' = m'] iso quiet m'(1)
    by blast
  have "\<not> list_ex (event_for 0) (outbox m2 (next_fd m1))"
    using never_enabled_never_sent [where sl = demo_sensors and asserts = False
        and peers = "\<lambda>fd k. None" and fdz = 5 and start = demo_boot
        and pre = "[Listener EPOLLIN AllocOk]" and before = m1 and post = demo_session_life
        and after = m2 and h = 0] demo_boot_is_new life(1,4) quiet_life
    by blast
  then have b: "\<not> list_ex (event_for 0) (outbox m2 6)"
    by (simp add: life(3))
  from a b m' life show ?thesis by blast
qed

subsection \<open>Redundant commands\<close>

text \<open>
  Claim C6, evaluated. Three clients have enabled sensor 0 and asked for 50 ms, 20 ms
  and 100 ms, and the client that asked for 20 ms has disconnected, which leaves 20 ms
  stored for the sensor. The first client, which has sensor 0 enabled, then sends
  \<open>ACTIVATE(0, 1)\<close> again: the counts and the state of every session stay as they are,
  but the handler calls \<open>setDelay(0, 50 ms)\<close> and stores 50 ms. The same happens when a
  client that has just connected, and so has sensor 0 disabled, sends \<open>ACTIVATE(0, 0)\<close>.
\<close>

theorem redundant_activate_pushes_stale_delay:
  "case run (demo_subscribe @ [Client 1 EPOLLIN PeerShutdown]) demo_boot of
     Inl f \<Rightarrow> False
   | Inr m \<Rightarrow>
       (case heap m 0 of None \<Rightarrow> False | Some c \<Rightarrow> client_sensor_enabled c ! 0)
       \<and> sensors_enabled (smod m) = [2, 0]
       \<and> sensor_delay_ns (smod m) = [20000000, 0]
       \<and> (case step (cmd_activate 0 0 1) m of
             Inl f \<Rightarrow> False
           | Inr m' \<Rightarrow>
               hal m' = hal m @ [SetDelay 0 50000000]
               \<and> sensor_delay_ns (smod m') = [50000000, 0]
               \<and> sensors_enabled (smod m') = sensors_enabled (smod m)
               \<and> heap m' 0 = heap m 0 \<and> heap m' 2 = heap m 2)
       \<and> (case step (Listener EPOLLIN AllocOk) m of
             Inl f \<Rightarrow> False
           | Inr m1 \<Rightarrow>
               (case heap m1 3 of None \<Rightarrow> False | Some c \<Rightarrow> \<not> client_sensor_enabled c ! 0)
               \<and> hal m1 = hal m
               \<and> (case step (cmd_activate 3 0 0) m1 of
                     Inl f \<Rightarrow> False
                   | Inr m' \<Rightarrow>
                       hal m' = hal m1 @ [SetDelay 0 50000000]
                       \<and> sensor_delay_ns (smod m') = [50000000, 0]
                       \<and> sensors_enabled (smod m') = sensors_enabled (smod m1)
                       \<and> heap m' 3 = heap m1 3))"
  by code_simp

end
